theory Spec2Isabelle
  imports Complex_Main "HOL-Library.Product_Lexorder" "HOL-Library.Option_ord"
begin

section \<open>Legal RAG system: hybrid retrieval, link store, ingestion\<close>

text \<open>
  A shallow embedding of the parts of the legal RAG repository that its specification
  makes quantified statements about: the hybrid retriever
  (\<^verbatim>\<open>src/retrieval/hybrid_retriever.py\<close>), the table constraints of the
  interpretation-link store, the PostgreSQL document loader and the constructor of the
  ingestion pipeline.

  Python floats are modelled as \<^typ>\<open>real\<close>: the statements below are about the
  arithmetic the code writes down (weighted sums, products, comparisons with constants),
  not about rounding. Python dictionaries whose iteration order matters are association
  lists; keys that may be absent from a result dictionary are \<^typ>\<open>'a option\<close>
  fields. External services (Elasticsearch, the embedding API, FAISS, the database) are
  fields of an environment record, and every call that can raise returns a sum with the
  exception on the left.
\<close>

subsection \<open>Python helpers\<close>

text \<open>\<^verbatim>\<open>d[k] = v\<close> on an insertion-ordered dictionary: an existing key keeps its
  position, a new key goes to the end.\<close>

fun dict_set :: "'k \<Rightarrow> 'v \<Rightarrow> ('k \<times> 'v) list \<Rightarrow> ('k \<times> 'v) list" where
  "dict_set k v [] = [(k, v)]"
| "dict_set k v ((k', v') # kvs) =
     (if k' = k then (k, v) # kvs else (k', v') # dict_set k v kvs)"

text \<open>\<^verbatim>\<open>min(scores)\<close> and \<^verbatim>\<open>max(scores)\<close>; both are only called on a
  non-empty list (the empty list returns early in \<^verbatim>\<open>_normalize_scores\<close>).\<close>

fun py_min :: "real list \<Rightarrow> real" where
  "py_min [] = 0"
| "py_min [x] = x"
| "py_min (x # y # ys) = min x (py_min (y # ys))"

fun py_max :: "real list \<Rightarrow> real" where
  "py_max [] = 0"
| "py_max [x] = x"
| "py_max (x # y # ys) = max x (py_max (y # ys))"

text \<open>\<^verbatim>\<open>xs[:k]\<close> for a Python integer \<open>k\<close>: a negative bound counts from the
  end.\<close>

definition py_take :: "int \<Rightarrow> 'a list \<Rightarrow> 'a list" where
  "py_take k xs = (if 0 \<le> k then take (nat k) xs else take (nat (int (length xs) + k)) xs)"

text \<open>\<^verbatim>\<open>sorted(xs, key=lambda x: x['score'], reverse=True)\<close>: Python's sort is
  stable also with \<^verbatim>\<open>reverse=True\<close>, and so is insertion sort on the negated
  key.\<close>

subsection \<open>Data model\<close>

datatype exn = ElasticsearchError | EmbeddingFailed | FaissError | DatabaseError

text \<open>A row of the \<^verbatim>\<open>documents\<close> table
  (\<^verbatim>\<open>database/models/document.py\<close>), with the columns the retriever reads and
  the columns the table constrains; the remaining columns are unconstrained payload.\<close>

record document =
  d_id :: string
  d_doc_type :: string
  d_parent_id :: "string option"
  d_level :: int
  d_title :: "string option"
  d_full_text :: string
  d_citation :: "string option"
  d_hash :: "string option"

text \<open>A row of \<^verbatim>\<open>interpretation_links\<close> as the queries of the two retrievers see
  it: the selected columns and the columns of their WHERE and ORDER BY clauses. The column
  \<^verbatim>\<open>verified\<close> is nullable in the migration and in
  \<^verbatim>\<open>database/models.py\<close>; \<^verbatim>\<open>boost_factor\<close> is NOT NULL in the
  migration and in the model class the retriever imports.\<close>

record link_row =
  statute_id :: string
  case_id :: string
  boost_factor :: real
  link_type :: string
  authority :: string
  verified :: "bool option"
  applicability_score :: "real option"
  confidence :: "real option"

text \<open>An Elasticsearch hit: \<^verbatim>\<open>hit['_source']\<close> and \<^verbatim>\<open>hit['_score']\<close>.\<close>

record es_hit =
  unit_id :: string
  hit_text :: string
  hit_citation :: "string option"
  hit_doc_type :: string
  hit_score :: real

text \<open>A result dictionary of the retriever. The keys \<^verbatim>\<open>doc_id\<close>,
  \<^verbatim>\<open>doc_type\<close>, \<^verbatim>\<open>content\<close>, \<^verbatim>\<open>citation\<close> and
  \<^verbatim>\<open>score\<close> are always present; every other key is present in some dictionaries
  only (\<open>None\<close> is the absent key, \<open>is_interpretive_case\<close> is \<open>False\<close> when the key
  is absent).\<close>

record result =
  doc_id :: string
  doc_type :: string
  content :: "string option"
  title :: "string option"
  citation :: "string option"
  score :: real
  retrieval_method :: "string option"
  source :: "string option"
  bm25_score :: "real option"
  dense_score :: "real option"
  combined_score :: "real option"
  interpretive_boost :: "real option"
  interprets_statute :: "string option"
  is_interpretive_case :: bool
  interpretation_type :: "string option"

record RetrievalConfig =
  top_k :: int
  bm25_weight :: real
  dense_weight :: real
  lepard_weight :: real
  max_interpretive_cases :: int
  interpretation_boost_enabled :: bool
  diversification_enabled :: bool

definition default_config :: RetrievalConfig where
  "default_config =
     \<lparr>top_k = 10, bm25_weight = 0.4, dense_weight = 0.4, lepard_weight = 0.2,
      max_interpretive_cases = 3, interpretation_boost_enabled = True,
      diversification_enabled = True\<rparr>"

text \<open>The collaborators of one \<^verbatim>\<open>HybridRetriever\<close>: the Elasticsearch client,
  the embedding client, the FAISS index with its position-to-document mapping, and the
  database session (two tables, and whether its calls succeed).\<close>

record env =
  es_search :: "string \<Rightarrow> nat \<Rightarrow> exn + es_hit list"
  embed :: "string \<Rightarrow> exn + real list"
  faiss_search :: "real list \<Rightarrow> nat \<Rightarrow> exn + (int \<times> real) list"
  faiss_mapping :: "int \<rightharpoonup> string"
  documents :: "document list"
  interpretation_links :: "link_row list"
  db_up :: bool

subsection \<open>The two sub-searches\<close>

definition hit_result :: "es_hit \<Rightarrow> result" where
  "hit_result h =
     \<lparr>doc_id = unit_id h, doc_type = hit_doc_type h, content = Some (hit_text h),
      title = None, citation = hit_citation h, score = hit_score h,
      retrieval_method = Some ''bm25'', source = None,
      bm25_score = None, dense_score = None, combined_score = None,
      interpretive_boost = None, interprets_statute = None,
      is_interpretive_case = False, interpretation_type = None\<rparr>"

text \<open>\<^verbatim>\<open>_bm25_search\<close>: any exception of the search is logged and turned into
  the empty list.\<close>

definition bm25_search :: "env \<Rightarrow> string \<Rightarrow> nat \<Rightarrow> result list" where
  "bm25_search e query k =
     (case es_search e query k of
        Inl ex \<Rightarrow> []
      | Inr hits \<Rightarrow> map hit_result hits)"

text \<open>\<^verbatim>\<open>self.db.query(Document).filter(Document.id == doc_id).first()\<close>.\<close>

definition get_document :: "env \<Rightarrow> string \<Rightarrow> document option" where
  "get_document e i = find (\<lambda>d. d_id d = i) (documents e)"

text \<open>\<^verbatim>\<open>doc.full_text or doc.title\<close>.\<close>

definition text_or_title :: "document \<Rightarrow> string option" where
  "text_or_title d = (if d_full_text d \<noteq> [] then Some (d_full_text d) else d_title d)"

definition dense_result :: "document \<Rightarrow> real \<Rightarrow> result" where
  "dense_result d distance =
     \<lparr>doc_id = d_id d, doc_type = d_doc_type d, content = text_or_title d,
      title = d_title d, citation = d_citation d, score = 1 / (1 + distance),
      retrieval_method = None, source = Some ''dense'',
      bm25_score = None, dense_score = None, combined_score = None,
      interpretive_boost = None, interprets_statute = None,
      is_interpretive_case = False, interpretation_type = None\<rparr>"

text \<open>One iteration of the loop over \<^verbatim>\<open>zip(indices[0], distances[0])\<close>: the
  three \<^verbatim>\<open>continue\<close>/skip cases, then the appended dictionary.\<close>

definition dense_hit :: "env \<Rightarrow> int \<times> real \<Rightarrow> result list" where
  "dense_hit e p =
     (case p of (idx, distance) \<Rightarrow>
        if idx = - 1 then []
        else (case faiss_mapping e idx of
                None \<Rightarrow> []
              | Some i \<Rightarrow> (case get_document e i of
                            None \<Rightarrow> []
                          | Some d \<Rightarrow> [dense_result d distance])))"

text \<open>\<^verbatim>\<open>_dense_search\<close>: the whole body is inside one \<^verbatim>\<open>try\<close>, so a failure
  of the embedding call, of FAISS or of a document lookup returns the empty list. L2
  distances are non-negative, so \<open>1 + distance\<close> is never zero.\<close>

definition dense_search :: "env \<Rightarrow> string \<Rightarrow> nat \<Rightarrow> result list" where
  "dense_search e query k =
     (case embed e query of
        Inl ex \<Rightarrow> []
      | Inr query_embedding \<Rightarrow>
          (case faiss_search e query_embedding k of
             Inl ex \<Rightarrow> []
           | Inr pairs \<Rightarrow>
               if db_up e then concat (map (dense_hit e) pairs) else []))"

subsection \<open>Normalisation and fusion\<close>

definition normalize_scores :: "result list \<Rightarrow> result list" where
  "normalize_scores results =
     (if results = [] then results
      else
        let scores = map score results;
            min_score = py_min scores;
            max_score = py_max scores
        in if max_score = min_score
           then map (\<lambda>r. r\<lparr>score := 1\<rparr>) results
           else map (\<lambda>r. r\<lparr>score := (score r - min_score) / (max_score - min_score)\<rparr>)
                  results)"

text \<open>First loop of \<^verbatim>\<open>_merge_results\<close>: every lexical result enters the
  dictionary under its \<^verbatim>\<open>doc_id\<close>.\<close>

definition merge_bm25_entry :: "RetrievalConfig \<Rightarrow> result \<Rightarrow> result" where
  "merge_bm25_entry cfg r =
     r\<lparr>bm25_score := Some (score r), dense_score := Some 0,
       combined_score := Some (bm25_weight cfg * score r)\<rparr>"

fun merge_bm25 ::
  "RetrievalConfig \<Rightarrow> result list \<Rightarrow> (string \<times> result) list \<Rightarrow> (string \<times> result) list" where
  "merge_bm25 cfg [] merged = merged"
| "merge_bm25 cfg (r # rs) merged =
     merge_bm25 cfg rs (dict_set (doc_id r) (merge_bm25_entry cfg r) merged)"

text \<open>Second loop: a dense result either adds its weighted score to the entry that is
  there, or enters the dictionary with lexical score 0.\<close>

definition merge_dense_entry ::
  "RetrievalConfig \<Rightarrow> result \<Rightarrow> result option \<Rightarrow> result" where
  "merge_dense_entry cfg r old =
     (case old of
        Some m \<Rightarrow>
          m\<lparr>dense_score := Some (score r),
            combined_score :=
              map_option (\<lambda>c. c + dense_weight cfg * score r) (combined_score m)\<rparr>
      | None \<Rightarrow>
          r\<lparr>bm25_score := Some 0, dense_score := Some (score r),
            combined_score := Some (dense_weight cfg * score r)\<rparr>)"

fun merge_dense ::
  "RetrievalConfig \<Rightarrow> result list \<Rightarrow> (string \<times> result) list \<Rightarrow> (string \<times> result) list" where
  "merge_dense cfg [] merged = merged"
| "merge_dense cfg (r # rs) merged =
     merge_dense cfg rs
       (dict_set (doc_id r) (merge_dense_entry cfg r (map_of merged (doc_id r))) merged)"

text \<open>Third loop: the main score becomes the combined score (the key is present in
  every entry the first two loops wrote).\<close>

definition set_main_score :: "result \<Rightarrow> result" where
  "set_main_score m =
     (case combined_score m of Some c \<Rightarrow> m\<lparr>score := c\<rparr> | None \<Rightarrow> m)"

definition sort_by_score_desc :: "result list \<Rightarrow> result list" where
  "sort_by_score_desc rs = sort_key (\<lambda>r. - score r) rs"

definition merge_results ::
  "RetrievalConfig \<Rightarrow> result list \<Rightarrow> result list \<Rightarrow> nat \<Rightarrow> result list" where
  "merge_results cfg bm25_results dense_results k =
     (let bm25_normalized = normalize_scores bm25_results;
          dense_normalized = normalize_scores dense_results;
          merged = merge_dense cfg dense_normalized (merge_bm25 cfg bm25_normalized []);
          sorted_results = sort_by_score_desc (map (set_main_score \<circ> snd) merged)
      in take k sorted_results)"

subsection \<open>Interpretation-aware boosting\<close>

text \<open>The database calls the boost stage issues, in order.\<close>

datatype db_event = LinkQuery "string list" | DocumentQuery string

text \<open>A value of \<^verbatim>\<open>case_boost_map\<close>.\<close>

record boost_info =
  info_boost_factor :: real
  info_statute_id :: string
  info_interpretation_type :: string
  info_authority :: string

text \<open>Step 1: the statutes among the first 20 results. The source collects them in a
  set; the list below has no duplicates.\<close>

definition top20_statute_ids :: "result list \<Rightarrow> string list" where
  "top20_statute_ids results =
     remdups (map doc_id (filter (\<lambda>r. doc_type r = ''statute'') (take 20 results)))"

text \<open>Step 2, the SQL text of the query:
  \<^verbatim>\<open>WHERE statute_id = ANY(:statute_ids) AND (verified = true OR verified IS NULL)
  ORDER BY boost_factor DESC, applicability_score DESC\<close>.
  PostgreSQL puts NULLs first in a descending order (\<open>None\<close> is the least element of
  the option order); rows that tie on both keys are kept in table order, where SQL
  leaves their order open.\<close>

definition link_selected :: "string list \<Rightarrow> link_row \<Rightarrow> bool" where
  "link_selected statute_ids l \<longleftrightarrow>
     statute_id l \<in> set statute_ids \<and> (verified l = Some True \<or> verified l = None)"

definition select_links :: "link_row list \<Rightarrow> string list \<Rightarrow> link_row list" where
  "select_links table statute_ids =
     sort_key (\<lambda>l. (- boost_factor l, map_option uminus (applicability_score l)))
       (filter (link_selected statute_ids) table)"

text \<open>Step 3: the first row of a case wins.\<close>

definition link_info :: "link_row \<Rightarrow> boost_info" where
  "link_info l =
     \<lparr>info_boost_factor = boost_factor l, info_statute_id = statute_id l,
      info_interpretation_type = link_type l, info_authority = authority l\<rparr>"

fun build_case_boost_map ::
  "link_row list \<Rightarrow> (string \<times> boost_info) list \<Rightarrow> (string \<times> boost_info) list" where
  "build_case_boost_map [] m = m"
| "build_case_boost_map (l # ls) m =
     build_case_boost_map ls
       (if map_of m (case_id l) = None then m @ [(case_id l, link_info l)] else m)"

text \<open>Step 4: a result whose \<^verbatim>\<open>doc_id\<close> is a key of the map is boosted in
  place.\<close>

definition boost_result :: "(string \<times> boost_info) list \<Rightarrow> result \<Rightarrow> result" where
  "boost_result m r =
     (case map_of m (doc_id r) of
        None \<Rightarrow> r
      | Some bi \<Rightarrow>
          r\<lparr>score := score r * info_boost_factor bi,
            interpretive_boost := Some (info_boost_factor bi),
            interprets_statute := Some (info_statute_id bi)\<rparr>)"

text \<open>Step 5: \<^verbatim>\<open>sum(r['score'] for r in results[:10]) / min(10, len(results))
  if results else 0.5\<close>, read after step 4 has updated the scores.\<close>

definition avg_score :: "result list \<Rightarrow> real" where
  "avg_score results =
     (if results \<noteq> []
      then sum_list (map score (take 10 results)) / real (min 10 (length results))
      else 0.5)"

definition synthetic_result :: "document \<Rightarrow> real \<Rightarrow> boost_info \<Rightarrow> result" where
  "synthetic_result d synthetic_score bi =
     \<lparr>doc_id = d_id d, doc_type = ''case'', content = text_or_title d,
      title = d_title d, citation = d_citation d,
      score = synthetic_score * info_boost_factor bi,
      retrieval_method = None, source = Some ''interpretation_link'',
      bm25_score = None, dense_score = None, combined_score = None,
      interpretive_boost = None, interprets_statute = Some (info_statute_id bi),
      is_interpretive_case = True,
      interpretation_type = Some (info_interpretation_type bi)\<rparr>"

definition add_missing_case ::
  "env \<Rightarrow> real \<Rightarrow> string \<times> boost_info \<Rightarrow> result list" where
  "add_missing_case e synthetic_score kv =
     (case get_document e (fst kv) of
        None \<Rightarrow> []
      | Some d \<Rightarrow> [synthetic_result d synthetic_score (snd kv)])"

text \<open>\<^verbatim>\<open>_apply_interpretation_boost\<close>. Neither database call is inside a
  \<^verbatim>\<open>try\<close>: a failing link query propagates.\<close>

definition apply_interpretation_boost ::
  "env \<Rightarrow> result list \<Rightarrow> string \<Rightarrow> db_event list \<times> (exn + result list)" where
  "apply_interpretation_boost e results query =
     (let statute_ids = top20_statute_ids results
      in if statute_ids = [] then ([], Inr results)
         else if \<not> db_up e then ([LinkQuery statute_ids], Inl DatabaseError)
         else
           let interpretive_cases = select_links (interpretation_links e) statute_ids
           in if interpretive_cases = [] then ([LinkQuery statute_ids], Inr results)
              else
                let case_boost_map = build_case_boost_map interpretive_cases [];
                    boosted = map (boost_result case_boost_map) results;
                    existing_case_ids =
                      map doc_id (filter (\<lambda>r. doc_type r = ''case'') boosted);
                    synthetic_score = 0.7 * avg_score boosted;
                    missing =
                      filter (\<lambda>kv. fst kv \<notin> set existing_case_ids) case_boost_map;
                    added = concat (map (add_missing_case e synthetic_score) missing)
                in (LinkQuery statute_ids # map (DocumentQuery \<circ> fst) missing,
                    Inr (boosted @ added)))"

subsection \<open>Diversification and the main pipeline\<close>

text \<open>The loop of \<^verbatim>\<open>_diversify_results\<close> with its two pieces of state, the
  counter dictionary and the output list; \<^verbatim>\<open>continue\<close> and \<^verbatim>\<open>break\<close>
  are the two ways to leave an iteration early.\<close>

fun diversify_loop ::
  "int \<Rightarrow> int \<Rightarrow> (string \<rightharpoonup> nat) \<Rightarrow> result list \<Rightarrow> result list \<Rightarrow> result list" where
  "diversify_loop mx k statute_case_count diversified [] = diversified"
| "diversify_loop mx k statute_case_count diversified (r # rs) =
     (case interprets_statute r of
        Some s \<Rightarrow>
          (let count = (case statute_case_count s of None \<Rightarrow> 0 | Some c \<Rightarrow> c)
           in if int count \<ge> mx
              then diversify_loop mx k statute_case_count diversified rs
              else if int (length (diversified @ [r])) \<ge> k then diversified @ [r]
              else diversify_loop mx k (statute_case_count(s \<mapsto> count + 1))
                     (diversified @ [r]) rs)
      | None \<Rightarrow>
          (if int (length (diversified @ [r])) \<ge> k then diversified @ [r]
           else diversify_loop mx k statute_case_count (diversified @ [r]) rs))"

definition diversify_results :: "RetrievalConfig \<Rightarrow> result list \<Rightarrow> int \<Rightarrow> result list" where
  "diversify_results cfg results k =
     diversify_loop (max_interpretive_cases cfg) k Map.empty []
       (sort_by_score_desc results)"

text \<open>\<^verbatim>\<open>retrieve\<close>. The argument \<open>k\<close> is optional; \<^verbatim>\<open>k or self.config.top_k\<close>
  also replaces a zero. The outcome is the list of database calls of the boost stage and
  either the exception that reaches the caller or the returned list.\<close>

definition retrieve ::
  "RetrievalConfig \<Rightarrow> env \<Rightarrow> string \<Rightarrow> int option \<Rightarrow> bool
     \<Rightarrow> db_event list \<times> (exn + result list)" where
  "retrieve cfg e query k use_interpretation_links =
     (let k' = (case k of None \<Rightarrow> top_k cfg | Some n \<Rightarrow> if n = 0 then top_k cfg else n);
          bm25_results = bm25_search e query 200;
          dense_results = dense_search e query 200;
          merged_results = merge_results cfg bm25_results dense_results 500;
          boost_outcome =
            (if use_interpretation_links \<and> interpretation_boost_enabled cfg
             then apply_interpretation_boost e merged_results query
             else ([], Inr merged_results))
      in (fst boost_outcome,
          case snd boost_outcome of
            Inl ex \<Rightarrow> Inl ex
          | Inr boosted_results \<Rightarrow>
              Inr (if diversification_enabled cfg
                   then diversify_results cfg boosted_results k'
                   else py_take k' (sort_by_score_desc boosted_results))))"

subsection \<open>The interpretation-aware retriever\<close>

text \<open>\<^verbatim>\<open>src/retrieval/interpretation_aware_retriever.py\<close>: a second retriever, over
  dense search alone. A candidate dictionary has a fixed set of keys; the keys
  \<^verbatim>\<open>court\<close>, \<^verbatim>\<open>year\<close>, \<^verbatim>\<open>section_number\<close> and \<^verbatim>\<open>para_no\<close> are
  copied from the row and never read, and are left out.\<close>

record candidate =
  c_id :: string
  c_doc_type :: string
  c_title :: string
  c_content :: string
  c_citation :: "string option"
  c_score :: real
  c_retrieval_method :: string
  c_is_interpretive :: bool
  c_interprets_statute :: "string option"
  c_interpretation_type :: "string option"

record AwareRetrievalConfig =
  aware_top_k :: int
  dense_k_multiplier :: int
  max_interpretive_per_statute :: int
  min_interpretation_boost :: real
  synthetic_penalty :: real

definition default_aware_config :: AwareRetrievalConfig where
  "default_aware_config =
     \<lparr>aware_top_k = 10, dense_k_multiplier = 3, max_interpretive_per_statute = 3,
      min_interpretation_boost = 1.5, synthetic_penalty = 0.7\<rparr>"

text \<open>\<^verbatim>\<open>x or ''\<close> for a nullable string.\<close>

definition or_empty :: "string option \<Rightarrow> string" where
  "or_empty x = (case x of None \<Rightarrow> [] | Some t \<Rightarrow> t)"

definition dense_candidate :: "document \<Rightarrow> real \<Rightarrow> candidate" where
  "dense_candidate d distance =
     \<lparr>c_id = d_id d, c_doc_type = d_doc_type d, c_title = or_empty (d_title d),
      c_content = d_full_text d, c_citation = Some (or_empty (d_citation d)),
      c_score = 1 / (1 + distance), c_retrieval_method = ''dense'',
      c_is_interpretive = False, c_interprets_statute = None,
      c_interpretation_type = None\<rparr>"

text \<open>The document id that a position of the index is mapped to, when the loop reaches
  the database for it: the position is not \<open>-1\<close>, it has a mapping entry, and the entry
  names a non-empty id.\<close>

definition mapped_id :: "env \<Rightarrow> int \<times> real \<Rightarrow> string option" where
  "mapped_id e p =
     (if fst p = - 1 then None
      else (case faiss_mapping e (fst p) of
              None \<Rightarrow> None
            | Some i \<Rightarrow> if i = [] then None else Some i))"

definition aware_dense_hit :: "env \<Rightarrow> int \<times> real \<Rightarrow> candidate list" where
  "aware_dense_hit e p =
     (case mapped_id e p of
        None \<Rightarrow> []
      | Some i \<Rightarrow> (case get_document e i of
                    None \<Rightarrow> []
                  | Some d \<Rightarrow> [dense_candidate d (snd p)]))"

text \<open>\<^verbatim>\<open>InterpretationAwareRetriever._dense_search\<close> has no \<^verbatim>\<open>try\<close>: a failure of
  the embedding call, of FAISS or of the first document lookup propagates.\<close>

definition aware_dense_search :: "env \<Rightarrow> string \<Rightarrow> nat \<Rightarrow> exn + candidate list" where
  "aware_dense_search e query k =
     (case embed e query of
        Inl ex \<Rightarrow> Inl ex
      | Inr query_embedding \<Rightarrow>
          (case faiss_search e query_embedding k of
             Inl ex \<Rightarrow> Inl ex
           | Inr pairs \<Rightarrow>
               if db_up e then Inr (concat (map (aware_dense_hit e) pairs))
               else if list_ex (\<lambda>p. mapped_id e p \<noteq> None) pairs then Inl DatabaseError
               else Inr []))"

definition extract_statute_ids :: "candidate list \<Rightarrow> string list" where
  "extract_statute_ids candidates =
     map c_id (filter (\<lambda>doc. c_doc_type doc = ''statute'') candidates)"

text \<open>An element of the lists of \<^verbatim>\<open>interpretation_map\<close>: the columns of one row of
  the join of \<^verbatim>\<open>interpretation_links\<close> with the case's document (without
  \<^verbatim>\<open>court\<close> and \<^verbatim>\<open>year\<close>).\<close>

record interp_case =
  ic_case_id :: string
  ic_interpretation_type :: string
  ic_authority :: string
  ic_boost_factor :: real
  ic_confidence :: "real option"
  ic_citation :: "string option"
  ic_title :: "string option"
  ic_content :: string

definition joined_row :: "link_row \<Rightarrow> document \<Rightarrow> string \<times> interp_case" where
  "joined_row l d =
     (statute_id l,
      \<lparr>ic_case_id = case_id l, ic_interpretation_type = link_type l,
       ic_authority = authority l, ic_boost_factor = boost_factor l,
       ic_confidence = confidence l, ic_citation = d_citation d, ic_title = d_title d,
       ic_content = d_full_text d\<rparr>)"

text \<open>The SQL of \<^verbatim>\<open>_get_interpretation_links\<close>:
  \<^verbatim>\<open>FROM interpretation_links il JOIN documents d ON il.case_id = d.id
  WHERE il.statute_id = ANY(:statute_ids) AND il.verified = TRUE
  ORDER BY il.boost_factor DESC, il.confidence DESC\<close>. A link whose case has no
  document yields no row.\<close>

definition aware_link_selected :: "string list \<Rightarrow> link_row \<Rightarrow> bool" where
  "aware_link_selected statute_ids l \<longleftrightarrow>
     statute_id l \<in> set statute_ids \<and> verified l = Some True"

definition join_document :: "env \<Rightarrow> link_row \<Rightarrow> (string \<times> interp_case) list" where
  "join_document e l =
     (case get_document e (case_id l) of None \<Rightarrow> [] | Some d \<Rightarrow> [joined_row l d])"

definition aware_select_rows :: "env \<Rightarrow> string list \<Rightarrow> (string \<times> interp_case) list" where
  "aware_select_rows e statute_ids =
     concat (map (join_document e)
       (sort_key (\<lambda>l. (- boost_factor l, map_option uminus (confidence l)))
          (filter (aware_link_selected statute_ids) (interpretation_links e))))"

text \<open>The rows organised by statute, in row order.\<close>

fun organize_by_statute ::
  "(string \<times> interp_case) list \<Rightarrow> (string \<times> interp_case list) list
     \<Rightarrow> (string \<times> interp_case list) list" where
  "organize_by_statute [] m = m"
| "organize_by_statute (row # rows) m =
     organize_by_statute rows
       (dict_set (fst row)
          ((case map_of m (fst row) of None \<Rightarrow> [] | Some cases \<Rightarrow> cases) @ [snd row]) m)"

definition get_interpretation_links ::
  "env \<Rightarrow> string list \<Rightarrow> exn + (string \<times> interp_case list) list" where
  "get_interpretation_links e statute_ids =
     (if statute_ids = [] then Inr []
      else if \<not> db_up e then Inl DatabaseError
      else Inr (organize_by_statute (aware_select_rows e statute_ids) []))"

text \<open>The inner loop of \<^verbatim>\<open>InterpretationAwareRetriever._apply_interpretation_boost\<close>.
  Its state is the list \<^verbatim>\<open>boosted_candidates\<close>, a copy of the list of candidates
  that shares its dictionaries, and the set \<^verbatim>\<open>added_case_ids\<close>. A case that is among
  the candidates is boosted in place, at its first occurrence.\<close>

fun boost_first :: "string \<Rightarrow> string \<Rightarrow> interp_case \<Rightarrow> candidate list \<Rightarrow> candidate list" where
  "boost_first statute ci ic [] = []"
| "boost_first statute ci ic (doc # docs) =
     (if c_id doc = ci
      then doc\<lparr>c_score := c_score doc * ic_boost_factor ic, c_is_interpretive := True,
               c_interprets_statute := Some statute,
               c_interpretation_type := Some (ic_interpretation_type ic)\<rparr> # docs
      else doc # boost_first statute ci ic docs)"

definition synthetic_candidate ::
  "AwareRetrievalConfig \<Rightarrow> string \<Rightarrow> real \<Rightarrow> interp_case \<Rightarrow> candidate" where
  "synthetic_candidate cfg statute statute_score ic =
     \<lparr>c_id = ic_case_id ic, c_doc_type = ''case'', c_title = or_empty (ic_title ic),
      c_content = ic_content ic, c_citation = ic_citation ic,
      c_score = statute_score * synthetic_penalty cfg * ic_boost_factor ic,
      c_retrieval_method = ''interpretation_link'', c_is_interpretive = True,
      c_interprets_statute = Some statute,
      c_interpretation_type = Some (ic_interpretation_type ic)\<rparr>"

fun boost_cases ::
  "AwareRetrievalConfig \<Rightarrow> string list \<Rightarrow> string \<Rightarrow> real \<Rightarrow> interp_case list
     \<Rightarrow> candidate list \<times> string list \<Rightarrow> candidate list \<times> string list" where
  "boost_cases cfg existing_ids statute statute_score [] st = st"
| "boost_cases cfg existing_ids statute statute_score (ic # ics) st =
     boost_cases cfg existing_ids statute statute_score ics
       (if ic_case_id ic \<in> set existing_ids
        then (boost_first statute (ic_case_id ic) ic (fst st), snd st)
        else if ic_case_id ic \<notin> set (snd st)
        then (fst st @ [synthetic_candidate cfg statute statute_score ic],
              snd st @ [ic_case_id ic])
        else st)"

text \<open>The outer loop, over the statutes of the map. The score of the statute is read
  from the candidates as they are at that moment (0.5 when the statute is not among
  them), and at most \<open>max_interpretive_per_statute\<close> of its cases are considered.\<close>

fun boost_statutes ::
  "AwareRetrievalConfig \<Rightarrow> nat \<Rightarrow> string list \<Rightarrow> (string \<times> interp_case list) list
     \<Rightarrow> candidate list \<times> string list \<Rightarrow> candidate list \<times> string list" where
  "boost_statutes cfg n existing_ids [] st = st"
| "boost_statutes cfg n existing_ids (entry # entries) st =
     boost_statutes cfg n existing_ids entries
       (boost_cases cfg existing_ids (fst entry)
          (case find (\<lambda>doc. c_id doc = fst entry) (take n (fst st)) of
             Some doc \<Rightarrow> c_score doc
           | None \<Rightarrow> 0.5)
          (py_take (max_interpretive_per_statute cfg) (snd entry)) st)"

definition aware_apply_interpretation_boost ::
  "AwareRetrievalConfig \<Rightarrow> candidate list \<Rightarrow> (string \<times> interp_case list) list
     \<Rightarrow> candidate list" where
  "aware_apply_interpretation_boost cfg candidates interpretation_map =
     fst (boost_statutes cfg (length candidates) (map c_id candidates) interpretation_map
            (candidates, []))"

text \<open>\<^verbatim>\<open>_diversify_and_rerank\<close>: the same loop as in the hybrid retriever, with the
  flag \<^verbatim>\<open>is_interpretive\<close> as the test and the value of
  \<^verbatim>\<open>interprets_statute\<close> as the key of the counter.\<close>

fun aware_diversify_loop ::
  "int \<Rightarrow> int \<Rightarrow> (string option \<rightharpoonup> nat) \<Rightarrow> candidate list \<Rightarrow> candidate list
     \<Rightarrow> candidate list" where
  "aware_diversify_loop mx k interp_count final_results [] = final_results"
| "aware_diversify_loop mx k interp_count final_results (doc # docs) =
     (if c_is_interpretive doc
      then (let count = (case interp_count (c_interprets_statute doc) of
                           None \<Rightarrow> 0 | Some c \<Rightarrow> c)
            in if int count \<ge> mx
               then aware_diversify_loop mx k interp_count final_results docs
               else if int (length (final_results @ [doc])) \<ge> k then final_results @ [doc]
               else aware_diversify_loop mx k
                      (interp_count(c_interprets_statute doc \<mapsto> count + 1))
                      (final_results @ [doc]) docs)
      else if int (length (final_results @ [doc])) \<ge> k then final_results @ [doc]
      else aware_diversify_loop mx k interp_count (final_results @ [doc]) docs)"

definition diversify_and_rerank ::
  "AwareRetrievalConfig \<Rightarrow> candidate list \<Rightarrow> int \<Rightarrow> candidate list" where
  "diversify_and_rerank cfg candidates k =
     aware_diversify_loop (max_interpretive_per_statute cfg) k Map.empty []
       (sort_key (\<lambda>doc. - c_score doc) candidates)"

text \<open>\<^verbatim>\<open>InterpretationAwareRetriever.retrieve\<close>.\<close>

definition aware_retrieve ::
  "AwareRetrievalConfig \<Rightarrow> env \<Rightarrow> string \<Rightarrow> int option \<Rightarrow> exn + candidate list" where
  "aware_retrieve cfg e query k =
     (let k' = (case k of None \<Rightarrow> aware_top_k cfg
                | Some n \<Rightarrow> if n = 0 then aware_top_k cfg else n)
      in case aware_dense_search e query (nat (k' * dense_k_multiplier cfg)) of
           Inl ex \<Rightarrow> Inl ex
         | Inr candidates \<Rightarrow>
             if candidates = [] then Inr []
             else (case get_interpretation_links e (extract_statute_ids candidates) of
                     Inl ex \<Rightarrow> Inl ex
                   | Inr interpretation_map \<Rightarrow>
                       Inr (diversify_and_rerank cfg
                              (aware_apply_interpretation_boost cfg candidates
                                 interpretation_map) k')))"

subsection \<open>Table constraints of the interpretation-link store\<close>

text \<open>The values of one INSERT into \<^verbatim>\<open>interpretation_links\<close>, with the columns
  that some declaration of the table constrains. A column that a declaration leaves
  nullable is an option; SQL accepts a row when a CHECK evaluates to true or to NULL.\<close>

record link_values =
  v_statute_id :: string
  v_case_id :: string
  v_interpretation_type :: string
  v_authority :: string
  v_extraction_method :: "string option"
  v_confidence :: "real option"
  v_applicability_score :: "real option"
  v_verified :: "bool option"
  v_boost_factor :: "real option"

datatype db_error = IntegrityError

definition check_range :: "real \<Rightarrow> real \<Rightarrow> real option \<Rightarrow> bool" where
  "check_range lo hi v = (case v of None \<Rightarrow> True | Some x \<Rightarrow> lo \<le> x \<and> x \<le> hi)"

definition check_in :: "string list \<Rightarrow> string option \<Rightarrow> bool" where
  "check_in allowed v = (case v of None \<Rightarrow> True | Some x \<Rightarrow> x \<in> set allowed)"

text \<open>\<^verbatim>\<open>InterpretationLink.__table_args__\<close> and the column declarations of
  \<^verbatim>\<open>database/models/interpretation_link.py\<close>, the class the retriever imports:
  \<^verbatim>\<open>boost_factor\<close> and \<^verbatim>\<open>verified\<close> are NOT NULL,
  \<^verbatim>\<open>ck_valid_boost_factor\<close> is \<^verbatim>\<open>boost_factor >= 1.0 AND boost_factor <= 5.0\<close>.\<close>

definition model_class_constraints :: "link_values \<Rightarrow> bool" where
  "model_class_constraints v \<longleftrightarrow>
     v_boost_factor v \<noteq> None \<and> v_verified v \<noteq> None \<and>
     check_range 1.0 5.0 (v_boost_factor v) \<and>
     check_range 0 1 (v_applicability_score v) \<and>
     check_range 0 1 (v_confidence v)"

text \<open>\<^verbatim>\<open>InterpretationLink.__table_args__\<close> of \<^verbatim>\<open>database/models.py\<close>:
  every constrained column except the two enumerations is nullable, and there is no
  check on \<^verbatim>\<open>applicability_score\<close>.\<close>

definition interpretation_types :: "string list" where
  "interpretation_types = [''NARROW'', ''BROAD'', ''CLARIFY'', ''PURPOSIVE'', ''LITERAL'', ''APPLY'']"

definition authorities :: "string list" where
  "authorities = [''BINDING'', ''PERSUASIVE'', ''OBITER'', ''DISSENT'']"

definition models_py_constraints :: "link_values \<Rightarrow> bool" where
  "models_py_constraints v \<longleftrightarrow>
     v_interpretation_type v \<in> set interpretation_types \<and>
     v_authority v \<in> set authorities \<and>
     check_range 1.0 3.0 (v_boost_factor v) \<and>
     check_range 0.0 1.0 (v_confidence v)"

text \<open>The table created by the Alembic migration
  \<^verbatim>\<open>97f81a11bea9_create_interpretation_links_table.py\<close>.\<close>

definition migration_constraints :: "link_values \<Rightarrow> bool" where
  "migration_constraints v \<longleftrightarrow>
     v_boost_factor v \<noteq> None \<and>
     v_interpretation_type v \<in> set interpretation_types \<and>
     v_authority v \<in> set authorities \<and>
     check_in [''RULE_BASED'', ''LLM_ASSISTED'', ''MANUAL''] (v_extraction_method v) \<and>
     check_range 0 1 (v_confidence v) \<and>
     check_range 0 1 (v_applicability_score v) \<and>
     check_range 1.0 3.0 (v_boost_factor v)"

text \<open>All three declarations make the pair \<^verbatim>\<open>(statute_id, case_id)\<close> unique.\<close>

definition unique_statute_case_pair :: "link_values list \<Rightarrow> link_values \<Rightarrow> bool" where
  "unique_statute_case_pair store v \<longleftrightarrow>
     (\<forall>w \<in> set store. \<not> (v_statute_id w = v_statute_id v \<and> v_case_id w = v_case_id v))"

definition insert_link ::
  "(link_values \<Rightarrow> bool) \<Rightarrow> link_values list \<Rightarrow> link_values \<Rightarrow> db_error + link_values list" where
  "insert_link constraints store v =
     (if constraints v \<and> unique_statute_case_pair store v then Inr (store @ [v])
      else Inl IntegrityError)"

subsection \<open>Synthesis scorer\<close>

text \<open>Modelled from the spec: the synthesis scorer
  (\<^verbatim>\<open>validation/synthesis_quality_scorer.py\<close>) is imported by
  \<^verbatim>\<open>examples/synthesis_scoring_examples.py\<close> but is not among the sources. The
  specification gives four section scores in \<open>[0, 1]\<close>, the weights 0.25, 0.25, 0.30 and
  0.20, \<open>overall = \<Sum> weight\<^sub>i \<cdot> section_score\<^sub>i\<close> and \<open>passed = overall \<ge> 0.70\<close>.\<close>

record section_scores =
  statute_score :: real
  interpretation_score :: real
  synthesis_score :: real
  practical_effect_score :: real

definition valid_scores :: "section_scores \<Rightarrow> bool" where
  "valid_scores s \<longleftrightarrow>
     0 \<le> statute_score s \<and> statute_score s \<le> 1 \<and>
     0 \<le> interpretation_score s \<and> interpretation_score s \<le> 1 \<and>
     0 \<le> synthesis_score s \<and> synthesis_score s \<le> 1 \<and>
     0 \<le> practical_effect_score s \<and> practical_effect_score s \<le> 1"

definition overall_score :: "section_scores \<Rightarrow> real" where
  "overall_score s =
     0.25 * statute_score s + 0.25 * interpretation_score s +
     0.30 * synthesis_score s + 0.20 * practical_effect_score s"

definition passed :: "section_scores \<Rightarrow> bool" where
  "passed s \<longleftrightarrow> overall_score s \<ge> 0.70"

subsection \<open>Constructor of the ingestion pipeline\<close>

text \<open>\<^verbatim>\<open>StandardIngestionPipeline.__init__\<close> of \<^verbatim>\<open>ingestion/pipeline.py\<close>.
  Python values are kept abstract; what the model makes explicit is the resolution of
  names: a name that the function does not bind is looked up among the module's globals
  and then among the builtins, and raises \<^verbatim>\<open>NameError\<close> when it is in neither.\<close>

datatype pyval = PyNone | PyInt int | PyObj string

datatype py_error = NameError string | ValueError string

fun truthy :: "pyval \<Rightarrow> bool" where
  "truthy PyNone = False"
| "truthy (PyInt n) = (n \<noteq> 0)"
| "truthy (PyObj c) = True"

record init_args =
  arg_source_adapter :: pyval
  arg_statute_parser :: pyval
  arg_case_parser :: pyval
  arg_loader :: pyval
  arg_batch_size :: pyval

record pipeline =
  self_source_adapter :: pyval
  self_statute_parser :: pyval
  self_case_parser :: pyval
  self_rules_parser :: pyval
  self_loader :: pyval
  self_batch_size :: pyval

text \<open>The parameters of \<^verbatim>\<open>__init__\<close>: its only local names, since the body
  assigns attributes of \<^verbatim>\<open>self\<close> and no plain name.\<close>

definition init_locals :: "init_args \<Rightarrow> (string \<times> pyval) list" where
  "init_locals a =
     [(''self'', PyObj ''StandardIngestionPipeline''),
      (''source_adapter'', arg_source_adapter a),
      (''statute_parser'', arg_statute_parser a),
      (''case_parser'', arg_case_parser a),
      (''loader'', arg_loader a),
      (''batch_size'', arg_batch_size a)]"

text \<open>The names bound at the top level of \<^verbatim>\<open>pipeline.py\<close>: its imports, the
  logger, the class and the three helper functions, and the attributes every module
  has.\<close>

definition module_globals :: "string list" where
  "module_globals =
     [''logging'', ''Optional'', ''List'', ''datetime'',
      ''SourceAdapter'', ''DocumentParser'', ''DatabaseLoader'', ''IngestionPipeline'',
      ''SourceDocument'', ''ParsedDocument'', ''IngestionResult'',
      ''StatuteParser'', ''CaseParser'', ''logger'', ''StandardIngestionPipeline'',
      ''run_ingestion'', ''ingest_from_filesystem'', ''ingest_sample_data'',
      ''__name__'', ''__doc__'', ''__package__'', ''__loader__'', ''__spec__'',
      ''__file__'', ''__cached__'', ''__builtins__'']"

text \<open>The names of Python's \<^verbatim>\<open>builtins\<close> module: functions and types,
  constants, and the exception hierarchy.\<close>

definition builtin_names :: "string list" where
  "builtin_names =
     [''abs'', ''aiter'', ''all'', ''anext'', ''any'', ''ascii'', ''bin'', ''bool'',
      ''breakpoint'', ''bytearray'', ''bytes'', ''callable'', ''chr'', ''classmethod'',
      ''compile'', ''complex'', ''delattr'', ''dict'', ''dir'', ''divmod'', ''enumerate'',
      ''eval'', ''exec'', ''filter'', ''float'', ''format'', ''frozenset'', ''getattr'',
      ''globals'', ''hasattr'', ''hash'', ''help'', ''hex'', ''id'', ''input'', ''int'',
      ''isinstance'', ''issubclass'', ''iter'', ''len'', ''list'', ''locals'', ''map'',
      ''max'', ''memoryview'', ''min'', ''next'', ''object'', ''oct'', ''open'', ''ord'',
      ''pow'', ''print'', ''property'', ''range'', ''repr'', ''reversed'', ''round'',
      ''set'', ''setattr'', ''slice'', ''sorted'', ''staticmethod'', ''str'', ''sum'',
      ''super'', ''tuple'', ''type'', ''vars'', ''zip'', ''__import__'',
      ''__build_class__'', ''__debug__'', ''__doc__'', ''__loader__'', ''__name__'',
      ''__package__'', ''__spec__'',
      ''True'', ''False'', ''None'', ''NotImplemented'', ''Ellipsis'',
      ''copyright'', ''credits'', ''license'', ''exit'', ''quit'',
      ''BaseException'', ''BaseExceptionGroup'', ''Exception'', ''ExceptionGroup'',
      ''ArithmeticError'', ''AssertionError'', ''AttributeError'', ''BlockingIOError'',
      ''BrokenPipeError'', ''BufferError'', ''BytesWarning'', ''ChildProcessError'',
      ''ConnectionAbortedError'', ''ConnectionError'', ''ConnectionRefusedError'',
      ''ConnectionResetError'', ''DeprecationWarning'', ''EOFError'', ''EncodingWarning'',
      ''EnvironmentError'', ''FileExistsError'', ''FileNotFoundError'',
      ''FloatingPointError'', ''FutureWarning'', ''GeneratorExit'', ''IOError'',
      ''ImportError'', ''ImportWarning'', ''IndentationError'', ''IndexError'',
      ''InterruptedError'', ''IsADirectoryError'', ''KeyError'', ''KeyboardInterrupt'',
      ''LookupError'', ''MemoryError'', ''ModuleNotFoundError'', ''NameError'',
      ''NotADirectoryError'', ''NotImplementedError'', ''OSError'', ''OverflowError'',
      ''PendingDeprecationWarning'', ''PermissionError'', ''ProcessLookupError'',
      ''RecursionError'', ''ReferenceError'', ''ResourceWarning'', ''RuntimeError'',
      ''RuntimeWarning'', ''StopAsyncIteration'', ''StopIteration'', ''SyntaxError'',
      ''SyntaxWarning'', ''SystemError'', ''SystemExit'', ''TabError'', ''TimeoutError'',
      ''TypeError'', ''UnboundLocalError'', ''UnicodeDecodeError'', ''UnicodeEncodeError'',
      ''UnicodeError'', ''UnicodeTranslateError'', ''UnicodeWarning'', ''UserWarning'',
      ''ValueError'', ''Warning'', ''ZeroDivisionError'']"

definition load_name :: "(string \<times> pyval) list \<Rightarrow> string \<Rightarrow> py_error + pyval" where
  "load_name locals n =
     (case map_of locals n of
        Some v \<Rightarrow> Inr v
      | None \<Rightarrow>
          if n \<in> set module_globals \<or> n \<in> set builtin_names then Inr (PyObj n)
          else Inl (NameError n))"

text \<open>Sequencing of statements that may raise.\<close>

definition and_then :: "'e + 'a \<Rightarrow> ('a \<Rightarrow> 'e + 'b) \<Rightarrow> 'e + 'b" where
  "and_then m f = (case m of Inl ex \<Rightarrow> Inl ex | Inr x \<Rightarrow> f x)"

text \<open>\<^verbatim>\<open>x or C()\<close>: the class is only looked up and called when \<open>x\<close> is
  falsy. Neither parser constructor raises.\<close>

definition or_construct ::
  "(string \<times> pyval) list \<Rightarrow> pyval \<Rightarrow> string \<Rightarrow> py_error + pyval" where
  "or_construct locals x cls =
     (if truthy x then Inr x
      else and_then (load_name locals cls) (\<lambda>c. Inr (PyObj (cls @ ''()''))))"

text \<open>The body of \<^verbatim>\<open>__init__\<close>, statement by statement:
  \<^verbatim>\<open>
  self.source_adapter = source_adapter
  self.statute_parser = statute_parser or StatuteParser()
  self.case_parser = case_parser
  self.rules_parser = rules_parser or CaseParser()
  self.loader = loader
  self.batch_size = batch_size
  if not self.loader:
      raise ValueError("Database loader is required")
  \<close>\<close>

definition StandardIngestionPipeline_init :: "init_args \<Rightarrow> py_error + pipeline" where
  "StandardIngestionPipeline_init a =
     (let ns = init_locals a
      in and_then (load_name ns ''source_adapter'') (\<lambda>sa.
         and_then (load_name ns ''statute_parser'') (\<lambda>sp.
         and_then (or_construct ns sp ''StatuteParser'') (\<lambda>sp'.
         and_then (load_name ns ''case_parser'') (\<lambda>cp.
         and_then (load_name ns ''rules_parser'') (\<lambda>rp.
         and_then (or_construct ns rp ''CaseParser'') (\<lambda>rp'.
         and_then (load_name ns ''loader'') (\<lambda>ld.
         and_then (load_name ns ''batch_size'') (\<lambda>bs.
           if \<not> truthy ld then Inl (ValueError ''Database loader is required'')
           else Inr \<lparr>self_source_adapter = sa, self_statute_parser = sp',
                     self_case_parser = cp, self_rules_parser = rp',
                     self_loader = ld, self_batch_size = bs\<rparr>)))))))))"

subsection \<open>Document loader\<close>

text \<open>A \<^verbatim>\<open>ParsedDocument\<close> (\<^verbatim>\<open>ingestion/models.py\<close>): the fields that the
  \<^verbatim>\<open>documents\<close> table constrains, and the title and text; the other fields are
  copied to unconstrained columns.\<close>

record parsed_document =
  p_id :: string
  p_doc_type :: string
  p_title :: string
  p_full_text :: string
  p_parent_id :: "string option"
  p_level :: int
  p_citation :: "string option"
  p_hash :: string

record IngestionResult =
  status :: string
  total_documents :: nat
  inserted :: nat
  skipped :: nat
  errors :: nat
  error_messages :: "string list"
  skipped_ids :: "string list"
  inserted_ids :: "string list"

definition add_error :: "string \<Rightarrow> IngestionResult \<Rightarrow> IngestionResult" where
  "add_error msg r = r\<lparr>errors := errors r + 1, error_messages := error_messages r @ [msg]\<rparr>"

definition add_skip :: "string \<Rightarrow> string \<Rightarrow> IngestionResult \<Rightarrow> IngestionResult" where
  "add_skip i reason r =
     r\<lparr>skipped := skipped r + 1, skipped_ids := skipped_ids r @ [i],
       error_messages := error_messages r @ [''Skipped '' @ i @ '': '' @ reason]\<rparr>"

definition add_success :: "string \<Rightarrow> IngestionResult \<Rightarrow> IngestionResult" where
  "add_success i r = r\<lparr>inserted := inserted r + 1, inserted_ids := inserted_ids r @ [i]\<rparr>"

text \<open>The flags of \<^verbatim>\<open>PostgresLoader\<close>. The two checks that read them are commented
  out in \<^verbatim>\<open>_load_single_document\<close> (``DISABLED FOR NOW''), so no function below
  consults them.\<close>

record PostgresLoader =
  skip_existing :: bool
  allow_duplicates :: bool

text \<open>A database session: the committed rows of \<^verbatim>\<open>documents\<close>, and the rows
  that the open transaction has flushed and not yet committed.\<close>

record session =
  committed :: "document list"
  pending :: "document list"

definition visible :: "session \<Rightarrow> document list" where
  "visible s = committed s @ pending s"

text \<open>The constraints of the \<^verbatim>\<open>documents\<close> table
  (\<^verbatim>\<open>database/models/document.py\<close>): primary key \<^verbatim>\<open>id\<close>,
  \<^verbatim>\<open>hash\<close> unique (NULLs do not collide), \<^verbatim>\<open>parent_id\<close> a foreign key
  into the same table, and \<^verbatim>\<open>ck_valid_level\<close>.\<close>

definition insert_allowed :: "document list \<Rightarrow> document \<Rightarrow> bool" where
  "insert_allowed rows d \<longleftrightarrow>
     d_id d \<notin> set (map d_id rows) \<and>
     (case d_hash d of None \<Rightarrow> True | Some h \<Rightarrow> Some h \<notin> set (map d_hash rows)) \<and>
     (case d_parent_id d of
        None \<Rightarrow> True
      | Some p \<Rightarrow> p \<in> set (map d_id rows) \<or> p = d_id d) \<and>
     0 \<le> d_level d \<and> d_level d \<le> 3"

text \<open>\<^verbatim>\<open>session.add(db_doc); session.flush()\<close>: the INSERT is sent inside the open
  transaction and raises \<^verbatim>\<open>IntegrityError\<close> when a constraint rejects it.\<close>

definition add_and_flush :: "session \<Rightarrow> document \<Rightarrow> db_error + session" where
  "add_and_flush s d =
     (if insert_allowed (visible s) d then Inr (s\<lparr>pending := pending s @ [d]\<rparr>)
      else Inl IntegrityError)"

text \<open>\<^verbatim>\<open>session.rollback()\<close> ends the transaction: everything flushed since the
  last commit is undone. \<^verbatim>\<open>session.commit()\<close> makes it permanent.\<close>

definition rollback :: "session \<Rightarrow> session" where
  "rollback s = s\<lparr>pending := []\<rparr>"

definition commit :: "session \<Rightarrow> session" where
  "commit s = \<lparr>committed = committed s @ pending s, pending = []\<rparr>"

definition db_doc :: "parsed_document \<Rightarrow> document" where
  "db_doc doc =
     \<lparr>d_id = p_id doc, d_doc_type = p_doc_type doc, d_parent_id = p_parent_id doc,
      d_level = p_level doc, d_title = Some (p_title doc), d_full_text = p_full_text doc,
      d_citation = p_citation doc, d_hash = Some (p_hash doc)\<rparr>"

text \<open>\<^verbatim>\<open>_load_single_document\<close>: with the three guards commented out, what is left
  is the INSERT and the handler of its \<^verbatim>\<open>IntegrityError\<close>.\<close>

definition load_single_document ::
  "PostgresLoader \<Rightarrow> session \<Rightarrow> parsed_document \<Rightarrow> IngestionResult
     \<Rightarrow> session \<times> IngestionResult" where
  "load_single_document loader s doc r =
     (case add_and_flush s (db_doc doc) of
        Inr s' \<Rightarrow> (s', add_success (p_id doc) r)
      | Inl IntegrityError \<Rightarrow> (rollback s, add_skip (p_id doc) ''integrity error'' r))"

fun load_each ::
  "PostgresLoader \<Rightarrow> parsed_document list \<Rightarrow> session \<times> IngestionResult
     \<Rightarrow> session \<times> IngestionResult" where
  "load_each loader [] sr = sr"
| "load_each loader (doc # docs) sr =
     load_each loader docs (load_single_document loader (fst sr) doc (snd sr))"

text \<open>\<^verbatim>\<open>_load_batch\<close>: a new session, the batch sorted by level, one commit at the
  end.\<close>

definition load_batch ::
  "PostgresLoader \<Rightarrow> parsed_document list \<Rightarrow> document list \<times> IngestionResult
     \<Rightarrow> document list \<times> IngestionResult" where
  "load_batch loader batch tr =
     (let sr = load_each loader (sort_key p_level batch)
                 (\<lparr>committed = fst tr, pending = []\<rparr>, snd tr)
      in (committed (commit (fst sr)), snd sr))"

text \<open>\<^verbatim>\<open>documents[i:i + batch_size] for i in range(0, len(documents), batch_size)\<close>
  for a positive batch size: the first \<open>batch_size\<close> documents, then the batches of the
  rest. (\<open>load_documents\<close> below treats the batch size zero, for which \<^verbatim>\<open>range\<close>
  raises.)\<close>

function batches :: "nat \<Rightarrow> 'a list \<Rightarrow> 'a list list" where
  "batches 0 xs = []"
| "batches (Suc n) [] = []"
| "batches (Suc n) (x # xs) = (x # take n xs) # batches (Suc n) (drop n xs)"
  by pat_completeness auto
termination
  by (relation "measure (\<lambda>(n, xs). length xs)") auto

fun load_batches ::
  "PostgresLoader \<Rightarrow> parsed_document list list \<Rightarrow> document list \<times> IngestionResult
     \<Rightarrow> document list \<times> IngestionResult" where
  "load_batches loader [] tr = tr"
| "load_batches loader (b # bs) tr = load_batches loader bs (load_batch loader b tr)"

text \<open>\<^verbatim>\<open>load_documents\<close> on a table: the new table and the returned statistics.
  A batch size of zero makes \<^verbatim>\<open>range\<close> raise before any batch is loaded.\<close>

definition load_documents ::
  "PostgresLoader \<Rightarrow> document list \<Rightarrow> parsed_document list \<Rightarrow> nat
     \<Rightarrow> py_error + document list \<times> IngestionResult" where
  "load_documents loader table docs batch_size =
     (if batch_size = 0 then Inl (ValueError ''range() arg 3 must not be zero'')
      else
        let r0 = \<lparr>status = ''success'', total_documents = length docs, inserted = 0,
                  skipped = 0, errors = 0, error_messages = [], skipped_ids = [],
                  inserted_ids = []\<rparr>;
            tr = load_batches loader (batches batch_size docs) (table, r0);
            r = snd tr
        in Inr (fst tr,
                if errors r > 0
                then r\<lparr>status := (if inserted r > 0 then ''partial'' else ''failed'')\<rparr>
                else r))"

subsection \<open>Concrete scenarios\<close>

text \<open>A small corpus used to run the definitions: one statute section and five case
  paragraphs. In every scenario Elasticsearch answers with the given hits, the embedding
  call raises, and the database is reachable.\<close>

definition demo_document :: "string \<Rightarrow> string \<Rightarrow> document" where
  "demo_document i t =
     \<lparr>d_id = i, d_doc_type = t, d_parent_id = None, d_level = 0, d_title = Some i,
      d_full_text = ''text of '' @ i, d_citation = None, d_hash = Some (''hash of '' @ i)\<rparr>"

definition demo_documents :: "document list" where
  "demo_documents =
     [demo_document ''s1'' ''statute'', demo_document ''c1'' ''case'',
      demo_document ''c2'' ''case'', demo_document ''c3'' ''case'',
      demo_document ''c4'' ''case'', demo_document ''c5'' ''case'']"

definition demo_hit :: "string \<Rightarrow> string \<Rightarrow> real \<Rightarrow> es_hit" where
  "demo_hit i t x =
     \<lparr>unit_id = i, hit_text = ''text of '' @ i, hit_citation = None, hit_doc_type = t,
      hit_score = x\<rparr>"

definition demo_link :: "string \<Rightarrow> string \<Rightarrow> real \<Rightarrow> bool option \<Rightarrow> link_row" where
  "demo_link s c b v =
     \<lparr>statute_id = s, case_id = c, boost_factor = b, link_type = ''CLARIFY'',
      authority = ''BINDING'', verified = v, applicability_score = None,
      confidence = None\<rparr>"

definition demo_env :: "es_hit list \<Rightarrow> link_row list \<Rightarrow> env" where
  "demo_env hits links =
     \<lparr>es_search = (\<lambda>q k. Inr (take k hits)), embed = (\<lambda>q. Inl EmbeddingFailed),
      faiss_search = (\<lambda>v k. Inr []), faiss_mapping = Map.empty,
      documents = demo_documents, interpretation_links = links, db_up = True\<rparr>"

text \<open>The statute and four of its verified interpreting cases, all found by the lexical
  search.\<close>

definition five_hits :: "es_hit list" where
  "five_hits =
     [demo_hit ''s1'' ''statute'' 5, demo_hit ''c1'' ''case'' 4, demo_hit ''c2'' ''case'' 3,
      demo_hit ''c3'' ''case'' 2, demo_hit ''c4'' ''case'' 1]"

definition four_links :: "link_row list" where
  "four_links =
     [demo_link ''s1'' ''c1'' 2 (Some True), demo_link ''s1'' ''c2'' 2 (Some True),
      demo_link ''s1'' ''c3'' 2 (Some True), demo_link ''s1'' ''c4'' 2 (Some True)]"

text \<open>The list a call returned, if it returned.\<close>

definition returned :: "db_event list \<times> (exn + result list) \<Rightarrow> result list option" where
  "returned outcome = (case snd outcome of Inl ex \<Rightarrow> None | Inr rs \<Rightarrow> Some rs)"

text \<open>The results annotated as interpreting the statute \<open>s\<close>.\<close>

definition interpreting :: "string \<Rightarrow> result list \<Rightarrow> result list" where
  "interpreting s rs = filter (\<lambda>r. interprets_statute r = Some s) rs"

subsection \<open>Auxiliary notions for the proofs\<close>

text \<open>\<open>r\<close> is the dictionary \<open>x\<close> up to the four score keys that fusion writes.\<close>

definition same_document :: "result \<Rightarrow> result \<Rightarrow> bool" where
  "same_document r x \<longleftrightarrow>
     r = x\<lparr>score := score r, bm25_score := bm25_score r, dense_score := dense_score r,
           combined_score := combined_score r\<rparr>"


text \<open>A result that the boost stage has not touched.\<close>

definition plain :: "result \<Rightarrow> bool" where
  "plain x \<longleftrightarrow>
     interprets_statute x = None \<and> interpretive_boost x = None \<and>
     \<not> is_interpretive_case x \<and> source x \<noteq> Some ''interpretation_link''"

text \<open>Every entry of \<^verbatim>\<open>case_boost_map\<close> stems from a stored link that the
  query selected.\<close>

definition boost_map_ok :: "env \<Rightarrow> string list \<Rightarrow> (string \<times> boost_info) list \<Rightarrow> bool" where
  "boost_map_ok e statute_ids M \<longleftrightarrow>
     (\<forall>kv \<in> set M. \<exists>l \<in> set (interpretation_links e).
        link_selected statute_ids l \<and> fst kv = case_id l \<and> snd kv = link_info l)"

text \<open>Steps 4 and 5 of the boost stage for a given map: the boosted results, then the
  injected cases.\<close>

definition boost_stage ::
  "env \<Rightarrow> (string \<times> boost_info) list \<Rightarrow> result list \<Rightarrow> result list" where
  "boost_stage e M results =
     (let boosted = map (boost_result M) results
      in boosted @
         concat (map (add_missing_case e (0.7 * avg_score boosted))
           (filter (\<lambda>kv. fst kv \<notin> set (map doc_id (filter (\<lambda>r. doc_type r = ''case'') boosted)))
              M)))"

text \<open>Further scenarios: the statute and two cases are found; one link is stored with
  \<^verbatim>\<open>verified\<close> NULL and one with false; or a verified link points to the case
  \<open>c5\<close> that no search returned.\<close>

definition three_hits :: "es_hit list" where
  "three_hits =
     [demo_hit ''s1'' ''statute'' 3, demo_hit ''c1'' ''case'' 2, demo_hit ''c3'' ''case'' 1]"

definition unverified_links :: "link_row list" where
  "unverified_links =
     [demo_link ''s1'' ''c1'' 2 None, demo_link ''s1'' ''c3'' 2 (Some False)]"

definition inject_links :: "link_row list" where
  "inject_links =
     [demo_link ''s1'' ''c1'' 2 (Some True), demo_link ''s1'' ''c5'' 2 (Some True)]"

text \<open>The fused list that \<open>retrieve\<close> hands to the boost stage.\<close>

definition merged_results :: "RetrievalConfig \<Rightarrow> env \<Rightarrow> string \<Rightarrow> result list" where
  "merged_results cfg e query =
     merge_results cfg (bm25_search e query 200) (dense_search e query 200) 500"

text \<open>The factor a returned result was boosted by (1 when it was not boosted).\<close>

definition boost_factor_of :: "result \<Rightarrow> real" where
  "boost_factor_of r = (case interpretive_boost r of None \<Rightarrow> 1 | Some f \<Rightarrow> f)"

text \<open>Only the statute is found, and a verified link points to the case \<open>c5\<close>.\<close>

definition one_hit :: "es_hit list" where
  "one_hit = [demo_hit ''s1'' ''statute'' 2]"

definition one_link :: "link_row list" where
  "one_link = [demo_link ''s1'' ''c5'' 2 (Some True)]"

text \<open>A returned result that stems from the lexical search alone: its fused score is the
  lexical weight times its normalised lexical score, and its final score is that value
  times the factor it was boosted by.\<close>

definition lexical_only :: "RetrievalConfig \<Rightarrow> result list \<Rightarrow> result \<Rightarrow> bool" where
  "lexical_only cfg lexs r \<longleftrightarrow>
     (\<exists>x \<in> set lexs. doc_id r = doc_id x \<and> bm25_score r = Some (score x) \<and>
        dense_score r = Some 0 \<and> combined_score r = Some (bm25_weight cfg * score x) \<and>
        score r = bm25_weight cfg * score x * boost_factor_of r)"

text \<open>A sequence of INSERT statements into an interpretation-link table: a rejected
  row leaves the table as it is.\<close>

fun insert_links ::
  "(link_values \<Rightarrow> bool) \<Rightarrow> link_values list \<Rightarrow> link_values list \<Rightarrow> link_values list" where
  "insert_links constraints [] store = store"
| "insert_links constraints (v # vs) store =
     insert_links constraints vs
       (case insert_link constraints store v of Inl err \<Rightarrow> store | Inr store' \<Rightarrow> store')"

text \<open>A link between \<open>s1\<close> and \<open>c1\<close> with a given boost factor and applicability
  score.\<close>

definition demo_values :: "real option \<Rightarrow> real option \<Rightarrow> link_values" where
  "demo_values boost applicability =
     \<lparr>v_statute_id = ''s1'', v_case_id = ''c1'', v_interpretation_type = ''CLARIFY'',
      v_authority = ''BINDING'', v_extraction_method = Some ''MANUAL'',
      v_confidence = Some 0.9, v_applicability_score = applicability,
      v_verified = Some True, v_boost_factor = boost\<rparr>"

text \<open>A root document with a given id and text; the hash stands for the digest of the
  text, so equal texts have equal hashes.\<close>

definition root_doc :: "string \<Rightarrow> string \<Rightarrow> parsed_document" where
  "root_doc i txt =
     \<lparr>p_id = i, p_doc_type = ''statute'', p_title = i, p_full_text = txt,
      p_parent_id = None, p_level = 0, p_citation = None, p_hash = ''sha256 of '' @ txt\<rparr>"

text \<open>A source with four documents, two pairs of which have identical text.\<close>

definition four_docs :: "parsed_document list" where
  "four_docs =
     [root_doc ''a'' ''[Repealed]'', root_doc ''b'' ''[Deleted]'',
      root_doc ''c'' ''[Repealed]'', root_doc ''e'' ''[Deleted]'']"

definition default_loader :: PostgresLoader where
  "default_loader = \<lparr>skip_existing = True, allow_duplicates = False\<rparr>"

text \<open>The same list of documents loaded twice in a row, starting from a given table: the
  table and statistics after each run.\<close>

definition ingest_twice ::
  "PostgresLoader \<Rightarrow> document list \<Rightarrow> parsed_document list \<Rightarrow> nat
     \<Rightarrow> py_error + (document list \<times> IngestionResult) \<times> (document list \<times> IngestionResult)" where
  "ingest_twice loader table docs batch_size =
     and_then (load_documents loader table docs batch_size) (\<lambda>first.
     and_then (load_documents loader (fst first) docs batch_size) (\<lambda>second.
       Inr (first, second)))"

text \<open>The candidates marked as interpreting the statute \<open>s\<close>.\<close>

definition aware_interpreting :: "string \<Rightarrow> candidate list \<Rightarrow> candidate list" where
  "aware_interpreting s rs =
     filter (\<lambda>r. c_is_interpretive r \<and> c_interprets_statute r = Some s) rs"

text \<open>The value the counter of the second diversification loop must hold for a key.\<close>

definition counted :: "string option \<Rightarrow> candidate list \<Rightarrow> nat" where
  "counted key rs = length (filter (\<lambda>r. c_is_interpretive r \<and> c_interprets_statute r = key) rs)"

text \<open>A stored link with \<^verbatim>\<open>verified = true\<close> from the statute to the case.\<close>

definition link_verified_for :: "env \<Rightarrow> string \<Rightarrow> string \<Rightarrow> bool" where
  "link_verified_for e s c \<longleftrightarrow>
     (\<exists>l \<in> set (interpretation_links e).
        verified l = Some True \<and> statute_id l = s \<and> case_id l = c)"

definition aware_linked :: "env \<Rightarrow> candidate \<Rightarrow> bool" where
  "aware_linked e r \<longleftrightarrow>
     (\<exists>s. c_interprets_statute r = Some s \<and> link_verified_for e s (c_id r))"

text \<open>A scenario for the second retriever: the embedding call succeeds and FAISS returns
  the statute and four cases at increasing distances.\<close>

definition dense_env :: "link_row list \<Rightarrow> env" where
  "dense_env links =
     \<lparr>es_search = (\<lambda>q k. Inr []), embed = (\<lambda>q. Inr [0]),
      faiss_search = (\<lambda>v k. Inr (take k [(0, 0), (1, 1), (2, 3), (3, 4), (4, 9)])),
      faiss_mapping = [0 \<mapsto> ''s1'', 1 \<mapsto> ''c1'', 2 \<mapsto> ''c2'', 3 \<mapsto> ''c3'', 4 \<mapsto> ''c4''],
      documents = demo_documents, interpretation_links = links, db_up = True\<rparr>"

text \<open>The list the second retriever returned, if it returned.\<close>

definition aware_returned :: "exn + candidate list \<Rightarrow> candidate list option" where
  "aware_returned outcome = (case outcome of Inl ex \<Rightarrow> None | Inr cs \<Rightarrow> Some cs)"

section \<open>Properties\<close>

subsection \<open>Diversification\<close>

lemma diversify_loop_cap:
  assumes "0 \<le> mx"
    and "\<forall>s. length (interpreting s acc) = (case c s of None \<Rightarrow> 0 | Some n \<Rightarrow> n)"
    and "\<forall>s. int (length (interpreting s acc)) \<le> mx"
  shows "int (length (interpreting s (diversify_loop mx k c acc rs))) \<le> mx"
  using assms
proof (induction rs arbitrary: c acc)
  case Nil
  then show ?case by simp
next
  case (Cons r rs)
  show ?case
  proof (cases "interprets_statute r")
    case None
    have a: "\<forall>s. interpreting s (acc @ [r]) = interpreting s acc"
      using None by (simp add: interpreting_def)
    show ?thesis
      using None Cons.prems a Cons.IH[of "acc @ [r]" c] by simp
  next
    case (Some t)
    let ?count = "case c t of None \<Rightarrow> 0 | Some n \<Rightarrow> n"
    show ?thesis
    proof (cases "int ?count \<ge> mx")
      case True
      then show ?thesis using Some Cons.prems Cons.IH[of acc c] by (simp add: Let_def)
    next
      case False
      have len: "\<forall>s. length (interpreting s (acc @ [r])) =
                  (case (c(t \<mapsto> ?count + 1)) s of None \<Rightarrow> 0 | Some n \<Rightarrow> n)"
        using Some Cons.prems(2) by (auto simp: interpreting_def)
      have cap: "\<forall>s. int (length (interpreting s (acc @ [r]))) \<le> mx"
      proof
        fix u
        show "int (length (interpreting u (acc @ [r]))) \<le> mx"
        proof (cases "u = t")
          case True
          have "length (interpreting t (acc @ [r])) = ?count + 1"
            using Some Cons.prems(2) by (simp add: interpreting_def)
          then show ?thesis using False True by simp
        next
          case False
          then have "interpreting u (acc @ [r]) = interpreting u acc"
            using Some by (simp add: interpreting_def)
          then show ?thesis using Cons.prems(3) by simp
        qed
      qed
      have ih: "int (length (interpreting s
                  (diversify_loop mx k (c(t \<mapsto> ?count + 1)) (acc @ [r]) rs))) \<le> mx"
        by (rule Cons.IH[OF Cons.prems(1) len cap])
      have step: "diversify_loop mx k c acc (r # rs) =
                  (if int (length (acc @ [r])) \<ge> k then acc @ [r]
                   else diversify_loop mx k (c(t \<mapsto> ?count + 1)) (acc @ [r]) rs)"
        using Some False by (simp add: Let_def del: fun_upd_apply)
      show ?thesis
        unfolding step using ih cap by (simp del: fun_upd_apply)
    qed
  qed
qed

lemma diversify_loop_step:
  "diversify_loop mx k c acc (r # rs) = acc @ [r] \<or>
   (\<exists>c'. diversify_loop mx k c acc (r # rs) = diversify_loop mx k c' acc rs) \<or>
   (\<exists>c'. diversify_loop mx k c acc (r # rs) = diversify_loop mx k c' (acc @ [r]) rs)"
proof (cases "interprets_statute r")
  case None
  then show ?thesis by (cases "int (length (acc @ [r])) \<ge> k") auto
next
  case (Some t)
  show ?thesis
  proof (cases "int (case c t of None \<Rightarrow> 0 | Some n \<Rightarrow> n) \<ge> mx")
    case True
    then have "diversify_loop mx k c acc (r # rs) = diversify_loop mx k c acc rs"
      using Some by (simp add: Let_def)
    then show ?thesis by blast
  next
    case False
    show ?thesis
    proof (cases "int (length (acc @ [r])) \<ge> k")
      case True
      then have "diversify_loop mx k c acc (r # rs) = acc @ [r]"
        using Some False by (simp add: Let_def)
      then show ?thesis by blast
    next
      case nk: False
      have "diversify_loop mx k c acc (r # rs) =
            diversify_loop mx k (c(t \<mapsto> (case c t of None \<Rightarrow> 0 | Some n \<Rightarrow> n) + 1))
              (acc @ [r]) rs"
        using Some False nk by (simp add: Let_def del: fun_upd_apply)
      then show ?thesis by blast
    qed
  qed
qed

lemma diversify_loop_subset:
  "x \<in> set (diversify_loop mx k c acc rs) \<Longrightarrow> x \<in> set acc \<or> x \<in> set rs"
proof (induction rs arbitrary: c acc)
  case Nil
  then show ?case by simp
next
  case (Cons r rs)
  from diversify_loop_step[of mx k c acc r rs] Cons.prems
  consider "x \<in> set (acc @ [r])"
    | c' where "x \<in> set (diversify_loop mx k c' acc rs)"
    | c' where "x \<in> set (diversify_loop mx k c' (acc @ [r]) rs)"
    by auto
  then show ?case
  proof cases
    case 1
    then show ?thesis by auto
  next
    case 2
    then show ?thesis using Cons.IH by fastforce
  next
    case 3
    then show ?thesis using Cons.IH[of c' "acc @ [r]"] by auto
  qed
qed

lemma set_sort_by_score_desc [simp]: "set (sort_by_score_desc rs) = set rs"
  by (simp add: sort_by_score_desc_def)

lemma set_py_take: "set (py_take k xs) \<subseteq> set xs"
  by (auto simp: py_take_def dest: in_set_takeD)


lemma retrieve_returned_subset:
  assumes "retrieve cfg e query k use_links = (ev, Inr rs)"
  shows "\<exists>boosted. snd (if use_links \<and> interpretation_boost_enabled cfg
              then apply_interpretation_boost e
                     (merge_results cfg (bm25_search e query 200) (dense_search e query 200) 500)
                     query
              else ([], Inr (merge_results cfg (bm25_search e query 200)
                               (dense_search e query 200) 500))) = Inr boosted \<and>
           set rs \<subseteq> set boosted"
proof -
  let ?out = "if use_links \<and> interpretation_boost_enabled cfg
              then apply_interpretation_boost e
                     (merge_results cfg (bm25_search e query 200) (dense_search e query 200) 500)
                     query
              else ([], Inr (merge_results cfg (bm25_search e query 200)
                               (dense_search e query 200) 500))"
  obtain boosted where b: "snd ?out = Inr boosted"
    using assms by (cases "snd ?out") (simp_all add: retrieve_def Let_def)
  have rs: "rs = (if diversification_enabled cfg
              then diversify_results cfg boosted
                     (case k of None \<Rightarrow> top_k cfg | Some n \<Rightarrow> if n = 0 then top_k cfg else n)
              else py_take (case k of None \<Rightarrow> top_k cfg | Some n \<Rightarrow> if n = 0 then top_k cfg else n)
                     (sort_by_score_desc boosted))"
    using assms b by (simp add: retrieve_def Let_def)
  have "set rs \<subseteq> set boosted"
  proof (cases "diversification_enabled cfg")
    case True
    then show ?thesis
      using rs diversify_loop_subset[of _ "max_interpretive_cases cfg" _ Map.empty "[]"
                 "sort_by_score_desc boosted"]
      by (auto simp: diversify_results_def)
  next
    case False
    then show ?thesis using rs set_py_take[of _ "sort_by_score_desc boosted"] by auto
  qed
  then show ?thesis using b by blast
qed

lemma hybrid_retrieve_caps_interpretive_cases:
  assumes "diversification_enabled cfg"
    and "0 \<le> max_interpretive_cases cfg"
    and "retrieve cfg e query k use_links = (ev, Inr rs)"
  shows "int (length (interpreting s rs)) \<le> max_interpretive_cases cfg"
proof -
  obtain boosted where
    rs: "rs = diversify_results cfg boosted
                (case k of None \<Rightarrow> top_k cfg | Some n \<Rightarrow> if n = 0 then top_k cfg else n)"
    using assms(1,3)
    by (auto simp: retrieve_def Let_def split: sum.splits)
  show ?thesis
    unfolding rs diversify_results_def
    by (rule diversify_loop_cap) (simp_all add: assms(2) interpreting_def)
qed

text \<open>With diversification switched off in the configuration, \<open>retrieve\<close> returns the
  sorted list cut at \<open>k\<close>: here four results interpret the statute \<open>s1\<close> although the
  maximum is 3.\<close>

theorem undiversified_retrieve_exceeds_cap:
  "max_interpretive_cases (default_config\<lparr>diversification_enabled := False\<rparr>) = 3 \<and>
   map_option (map interprets_statute)
     (returned (retrieve (default_config\<lparr>diversification_enabled := False\<rparr>)
        (demo_env five_hits four_links) ''q'' None True)) =
     Some [Some ''s1'', None, Some ''s1'', Some ''s1'', Some ''s1'']"
  by code_simp

subsection \<open>No hits\<close>

lemma merge_results_empty [simp]: "merge_results cfg [] [] k = []"
  by (simp add: merge_results_def normalize_scores_def sort_by_score_desc_def)

lemma apply_interpretation_boost_empty [simp]:
  "apply_interpretation_boost e [] query = ([], Inr [])"
  by (simp add: apply_interpretation_boost_def top20_statute_ids_def)

text \<open>C10. When both sub-searches return no hits, \<open>retrieve\<close> returns the empty list and
  the boost stage issues no database call, whatever the configuration, the requested
  \<open>k\<close>, the flag and the state of the database.\<close>

theorem retrieve_no_hits:
  assumes "bm25_search e query 200 = []" and "dense_search e query 200 = []"
  shows "retrieve cfg e query k use_links = ([], Inr [])"
  using assms
  by (simp add: retrieve_def Let_def diversify_results_def sort_by_score_desc_def py_take_def)

theorem retrieve_no_hits_witness:
  "bm25_search (demo_env [] four_links) ''q'' 200 = [] \<and>
   dense_search (demo_env [] four_links) ''q'' 200 = [] \<and>
   retrieve default_config (demo_env [] four_links) ''q'' None True = ([], Inr [])"
proof -
  have b: "bm25_search (demo_env [] four_links) ''q'' 200 = []"
    by (simp add: bm25_search_def demo_env_def)
  have d: "dense_search (demo_env [] four_links) ''q'' 200 = []"
    by (simp add: dense_search_def demo_env_def)
  show ?thesis using b d retrieve_no_hits[OF b d, of default_config None True] by simp
qed

subsection \<open>The pipeline constructor\<close>

text \<open>C9. For every combination of arguments the constructor of
  \<open>StandardIngestionPipeline\<close> raises \<open>NameError\<close> for the name \<open>rules_parser\<close>: the
  name is no parameter, no global of the module and no builtin, and it is read before
  the check of the loader. No pipeline object is ever returned, so \<open>run\<close> cannot be
  called on one.\<close>

theorem pipeline_init_raises_name_error:
  "StandardIngestionPipeline_init a = Inl (NameError ''rules_parser'')"
  by (simp add: StandardIngestionPipeline_init_def Let_def and_then_def load_name_def
      init_locals_def or_construct_def module_globals_def builtin_names_def)

theorem pipeline_init_raises_name_error_witness:
  "StandardIngestionPipeline_init
     \<lparr>arg_source_adapter = PyObj ''SampleAdapter'', arg_statute_parser = PyNone,
      arg_case_parser = PyNone, arg_loader = PyObj ''PostgresLoader'',
      arg_batch_size = PyInt 100\<rparr> = Inl (NameError ''rules_parser'')"
  by (rule pipeline_init_raises_name_error)

subsection \<open>The synthesis scorer\<close>

text \<open>With the weights 0.25, 0.25, 0.30 and 0.20 and section scores in \<open>[0, 1]\<close>, an
  answer whose synthesis section scores 0 has an overall score of at most 0.70. The three
  remaining weights add up to the threshold itself, so such an answer fails unless the
  other three sections all score 1.\<close>

lemma missing_synthesis_passes_only_at_full_scores:
  assumes "valid_scores s" and "synthesis_score s = 0"
  shows "overall_score s \<le> 0.70 \<and>
         (passed s \<longleftrightarrow> statute_score s = 1 \<and> interpretation_score s = 1 \<and>
                      practical_effect_score s = 1)"
  using assms unfolding valid_scores_def overall_score_def passed_def by auto


subsection \<open>Fusion\<close>

lemma in_dict_set:
  "(k', v') \<in> set (dict_set k v kvs) \<Longrightarrow> (k', v') = (k, v) \<or> (k', v') \<in> set kvs"
  by (induction kvs) (auto split: if_splits)

lemma normalize_scores_elem:
  "r \<in> set (normalize_scores rs) \<Longrightarrow> \<exists>x \<in> set rs. r = x\<lparr>score := score r\<rparr>"
  by (auto simp: normalize_scores_def Let_def split: if_splits)

lemma map_doc_id_normalize_scores [simp]:
  "map doc_id (normalize_scores rs) = map doc_id rs"
  by (simp add: normalize_scores_def Let_def)

lemma same_document_refl [simp]: "same_document x x"
  by (simp add: same_document_def)

lemma same_document_update:
  "same_document m x \<Longrightarrow>
   same_document (m\<lparr>score := s, bm25_score := b, dense_score := d, combined_score := c\<rparr>) x"
  "same_document m x \<Longrightarrow> same_document (m\<lparr>dense_score := d, combined_score := c\<rparr>) x"
  "same_document m x \<Longrightarrow>
   same_document (m\<lparr>bm25_score := b, dense_score := d, combined_score := c\<rparr>) x"
  "same_document m x \<Longrightarrow> same_document (m\<lparr>score := s\<rparr>) x"
  unfolding same_document_def by (cases x; cases m; simp)+

lemma same_document_score:
  "r = x\<lparr>score := s\<rparr> \<Longrightarrow> same_document m r \<Longrightarrow> same_document m x"
  unfolding same_document_def by (cases x; cases m; simp)

lemma same_document_fields:
  "same_document m x \<Longrightarrow>
   doc_id m = doc_id x \<and> doc_type m = doc_type x \<and> source m = source x \<and>
   retrieval_method m = retrieval_method x \<and>
   interpretive_boost m = interpretive_boost x \<and>
   interprets_statute m = interprets_statute x \<and>
   is_interpretive_case m = is_interpretive_case x \<and>
   interpretation_type m = interpretation_type x"
  unfolding same_document_def by (cases x; cases m; simp)






lemma merge_bm25_entries:
  "(k, m) \<in> set (merge_bm25 cfg rs merged) \<Longrightarrow>
   (k, m) \<in> set merged \<or> (\<exists>x \<in> set rs. m = merge_bm25_entry cfg x)"
proof (induction rs arbitrary: merged)
  case Nil
  then show ?case by simp
next
  case (Cons r rs)
  from Cons.IH[of "dict_set (doc_id r) (merge_bm25_entry cfg r) merged"] Cons.prems
  consider "(k, m) \<in> set (dict_set (doc_id r) (merge_bm25_entry cfg r) merged)"
    | "\<exists>x \<in> set rs. m = merge_bm25_entry cfg x"
    by auto
  then show ?case
  proof cases
    case 1
    then show ?thesis using in_dict_set[OF 1] by auto
  next
    case 2
    then show ?thesis by auto
  qed
qed

lemma merge_dense_origin:
  assumes "\<forall>(k, m) \<in> set merged. \<exists>x \<in> set inputs. same_document m x"
    and "set rs \<subseteq> set inputs"
  shows "\<forall>(k, m) \<in> set (merge_dense cfg rs merged). \<exists>x \<in> set inputs. same_document m x"
  using assms
proof (induction rs arbitrary: merged)
  case Nil
  then show ?case by simp
next
  case (Cons r rs)
  let ?old = "map_of merged (doc_id r)"
  have new: "\<exists>x \<in> set inputs. same_document (merge_dense_entry cfg r ?old) x"
  proof (cases ?old)
    case None
    have "same_document (r\<lparr>bm25_score := Some 0, dense_score := Some (score r),
            combined_score := Some (dense_weight cfg * score r)\<rparr>) r"
      by (rule same_document_update(3)[OF same_document_refl])
    moreover have "r \<in> set inputs" using Cons.prems(2) by simp
    ultimately show ?thesis using None by (auto simp: merge_dense_entry_def)
  next
    case (Some m)
    then have "(doc_id r, m) \<in> set merged" by (rule map_of_SomeD)
    then obtain x where x: "x \<in> set inputs" "same_document m x"
      using Cons.prems(1) by auto
    have "same_document (merge_dense_entry cfg r ?old) x"
      unfolding Some merge_dense_entry_def option.case
      by (rule same_document_update(2)[OF x(2)])
    then show ?thesis using x(1) by blast
  qed
  have "\<forall>(k, m) \<in> set (dict_set (doc_id r) (merge_dense_entry cfg r ?old) merged).
          \<exists>x \<in> set inputs. same_document m x"
  proof (clarify)
    fix k m assume "(k, m) \<in> set (dict_set (doc_id r) (merge_dense_entry cfg r ?old) merged)"
    then consider "m = merge_dense_entry cfg r ?old" | "(k, m) \<in> set merged"
      using in_dict_set by fastforce
    then show "\<exists>x \<in> set inputs. same_document m x"
      using new Cons.prems(1) by cases auto
  qed
  then show ?case using Cons.IH Cons.prems(2) by simp
qed

lemma merge_results_origin:
  assumes "r \<in> set (merge_results cfg bm25_results dense_results k)"
  shows "\<exists>x \<in> set bm25_results \<union> set dense_results. same_document r x"
proof -
  let ?lexs = "normalize_scores bm25_results"
  let ?dns = "normalize_scores dense_results"
  let ?inputs = "?lexs @ ?dns"
  let ?m1 = "merge_bm25 cfg ?lexs []"
  let ?m2 = "merge_dense cfg ?dns ?m1"
  have 1: "\<forall>(k, m) \<in> set ?m1. \<exists>x \<in> set ?inputs. same_document m x"
  proof (clarify)
    fix k m assume "(k, m) \<in> set ?m1"
    then obtain x where x: "x \<in> set ?lexs" "m = merge_bm25_entry cfg x"
      using merge_bm25_entries by fastforce
    have "same_document m x"
      unfolding x(2) merge_bm25_entry_def
      by (rule same_document_update(3)[OF same_document_refl])
    then show "\<exists>x \<in> set ?inputs. same_document m x" using x(1) by auto
  qed
  have 2: "\<forall>(k, m) \<in> set ?m2. \<exists>x \<in> set ?inputs. same_document m x"
    by (rule merge_dense_origin[OF 1]) simp
  from assms have "r \<in> set (map (set_main_score \<circ> snd) ?m2)"
    by (auto simp: merge_results_def Let_def dest: in_set_takeD)
  then obtain km where km: "km \<in> set ?m2" "r = set_main_score (snd km)" by auto
  have "case km of (k, m) \<Rightarrow> \<exists>x \<in> set ?inputs. same_document m x"
    using 2 km(1) by (rule bspec)
  then have "\<exists>x \<in> set ?inputs. same_document (snd km) x"
    by (simp add: case_prod_unfold)
  then obtain x where x: "x \<in> set ?inputs" "same_document (snd km) x" by blast
  have "same_document r x"
    unfolding km(2) set_main_score_def
    by (cases "combined_score (snd km)") (simp_all add: x(2) same_document_update(4))
  moreover obtain x0 where x0: "x0 \<in> set bm25_results \<union> set dense_results"
      "x = x0\<lparr>score := score x\<rparr>"
    using x(1) normalize_scores_elem by fastforce
  ultimately have "same_document r x0" using same_document_score by blast
  then show ?thesis using x0(1) by blast
qed

lemma bm25_search_plain: "x \<in> set (bm25_search e q k) \<Longrightarrow> plain x"
  by (auto simp: bm25_search_def hit_result_def plain_def split: sum.splits)

lemma dense_search_plain: "x \<in> set (dense_search e q k) \<Longrightarrow> plain x"
  by (auto simp: dense_search_def dense_hit_def dense_result_def plain_def
      split: sum.splits if_splits option.splits)

lemma same_document_plain: "same_document r x \<Longrightarrow> plain x \<Longrightarrow> plain r"
  using same_document_fields[of r x] by (simp add: plain_def)

lemma merged_plain:
  "r \<in> set (merge_results cfg (bm25_search e q k1) (dense_search e q k2) k) \<Longrightarrow> plain r"
  using merge_results_origin bm25_search_plain dense_search_plain same_document_plain
  by (metis Un_iff)

lemma lexical_only_merge:
  assumes "r \<in> set (merge_results cfg bm25_results [] k)"
  shows "\<exists>x \<in> set (normalize_scores bm25_results).
           r = x\<lparr>bm25_score := Some (score x), dense_score := Some 0,
                 combined_score := Some (bm25_weight cfg * score x),
                 score := bm25_weight cfg * score x\<rparr>"
proof -
  let ?m1 = "merge_bm25 cfg (normalize_scores bm25_results) []"
  from assms have "r \<in> set (map (set_main_score \<circ> snd) ?m1)"
    by (auto simp: merge_results_def Let_def normalize_scores_def dest: in_set_takeD)
  then obtain km where km: "km \<in> set ?m1" "r = set_main_score (snd km)" by auto
  then obtain x where x: "x \<in> set (normalize_scores bm25_results)"
      "snd km = merge_bm25_entry cfg x"
    using merge_bm25_entries[of "fst km" "snd km"] by fastforce
  have "r = x\<lparr>bm25_score := Some (score x), dense_score := Some 0,
                 combined_score := Some (bm25_weight cfg * score x),
                 score := bm25_weight cfg * score x\<rparr>"
    unfolding km(2) x(2) by (simp add: set_main_score_def merge_bm25_entry_def)
  then show ?thesis using x(1) by blast
qed

subsection \<open>The boost stage\<close>

lemma set_select_links:
  "set (select_links table ids) = {l \<in> set table. link_selected ids l}"
  by (auto simp: select_links_def)

lemma build_case_boost_map_entries:
  "kv \<in> set (build_case_boost_map ls m) \<Longrightarrow>
   kv \<in> set m \<or> (\<exists>l \<in> set ls. fst kv = case_id l \<and> snd kv = link_info l)"
proof (induction ls arbitrary: m)
  case Nil
  then show ?case by simp
next
  case (Cons l ls)
  from Cons.IH[OF Cons.prems[simplified]] show ?case
    by (auto split: if_splits)
qed

lemma boost_result_empty [simp]: "boost_result [] = id"
  by (rule ext) (simp add: boost_result_def)

lemma boost_stage_empty [simp]: "boost_stage e [] results = results"
  by (simp add: boost_stage_def Let_def)

lemma apply_interpretation_boost_shape:
  assumes "apply_interpretation_boost e results query = (ev, Inr out)"
  shows "\<exists>M. boost_map_ok e (top20_statute_ids results) M \<and> out = boost_stage e M results"
proof -
  let ?ids = "top20_statute_ids results"
  let ?rows = "select_links (interpretation_links e) ?ids"
  show ?thesis
  proof (cases "?ids = [] \<or> ?rows = []")
    case True
    then have "out = results"
      using assms by (auto simp: apply_interpretation_boost_def Let_def split: if_splits)
    then have "boost_map_ok e ?ids [] \<and> out = boost_stage e [] results"
      by (simp add: boost_map_ok_def)
    then show ?thesis by blast
  next
    case False
    let ?M = "build_case_boost_map ?rows []"
    have out: "out = boost_stage e ?M results"
      using assms False
      by (auto simp: apply_interpretation_boost_def boost_stage_def Let_def split: if_splits)
    have "boost_map_ok e ?ids ?M"
      unfolding boost_map_ok_def
    proof
      fix kv assume "kv \<in> set ?M"
      then obtain l where "l \<in> set ?rows" "fst kv = case_id l" "snd kv = link_info l"
        using build_case_boost_map_entries by fastforce
      then show "\<exists>l \<in> set (interpretation_links e).
                   link_selected ?ids l \<and> fst kv = case_id l \<and> snd kv = link_info l"
        unfolding set_select_links by blast
    qed
    then show ?thesis using out by blast
  qed
qed

lemma get_document_id: "get_document e i = Some d \<Longrightarrow> d_id d = i"
  by (auto simp: get_document_def find_Some_iff)

lemma boost_stage_elem:
  assumes "r \<in> set (boost_stage e M results)"
  shows "(\<exists>m \<in> set results. r = boost_result M m) \<or>
         (\<exists>kv \<in> set M. \<exists>d. get_document e (fst kv) = Some d \<and>
            r = synthetic_result d (0.7 * avg_score (map (boost_result M) results)) (snd kv))"
proof -
  let ?boosted = "map (boost_result M) results"
  from assms consider "r \<in> set ?boosted"
    | kv where "kv \<in> set M" "r \<in> set (add_missing_case e (0.7 * avg_score ?boosted) kv)"
    by (auto simp: boost_stage_def Let_def)
  then show ?thesis
  proof cases
    case 1
    then show ?thesis by auto
  next
    case 2
    show ?thesis
    proof (cases "get_document e (fst kv)")
      case None
      then show ?thesis using 2(2) by (simp add: add_missing_case_def)
    next
      case (Some d)
      then have "r = synthetic_result d (0.7 * avg_score ?boosted) (snd kv)"
        using 2(2) by (simp add: add_missing_case_def)
      then show ?thesis using 2(1) Some by blast
    qed
  qed
qed

lemma boost_result_plain:
  assumes "plain m"
  shows "source (boost_result M m) \<noteq> Some ''interpretation_link'' \<and>
         doc_id (boost_result M m) = doc_id m \<and>
         bm25_score (boost_result M m) = bm25_score m \<and>
         dense_score (boost_result M m) = dense_score m \<and>
         combined_score (boost_result M m) = combined_score m \<and>
         score (boost_result M m) =
           score m * (case interpretive_boost (boost_result M m) of None \<Rightarrow> 1 | Some f \<Rightarrow> f) \<and>
         (interprets_statute (boost_result M m) = None \<or>
          (\<exists>bi. (doc_id m, bi) \<in> set M \<and>
             interprets_statute (boost_result M m) = Some (info_statute_id bi) \<and>
             interpretive_boost (boost_result M m) = Some (info_boost_factor bi)))"
proof (cases "map_of M (doc_id m)")
  case None
  then show ?thesis using assms by (simp add: boost_result_def plain_def)
next
  case (Some bi)
  then have "(doc_id m, bi) \<in> set M" by (rule map_of_SomeD)
  then show ?thesis using assms Some by (auto simp: boost_result_def plain_def)
qed

lemma link_info_fields [simp]:
  "info_boost_factor (link_info l) = boost_factor l"
  "info_statute_id (link_info l) = statute_id l"
  "info_interpretation_type (link_info l) = link_type l"
  by (simp_all add: link_info_def)

lemma link_selected_verified: "link_selected ids l \<Longrightarrow> verified l \<noteq> Some False"
  by (auto simp: link_selected_def)

lemma retrieve_elem:
  assumes "retrieve cfg e query k use_links = (ev, Inr rs)" and "r \<in> set rs"
  shows "r \<in> set (merged_results cfg e query) \<or>
         (\<exists>M. boost_map_ok e (top20_statute_ids (merged_results cfg e query)) M \<and>
               r \<in> set (boost_stage e M (merged_results cfg e query)))"
proof -
  from retrieve_returned_subset[OF assms(1)] obtain boosted where
    b: "snd (if use_links \<and> interpretation_boost_enabled cfg
              then apply_interpretation_boost e (merged_results cfg e query) query
              else ([], Inr (merged_results cfg e query))) = Inr boosted"
    and sub: "set rs \<subseteq> set boosted"
    unfolding merged_results_def by blast
  show ?thesis
  proof (cases "use_links \<and> interpretation_boost_enabled cfg")
    case True
    then have "apply_interpretation_boost e (merged_results cfg e query) query =
               (fst (apply_interpretation_boost e (merged_results cfg e query) query), Inr boosted)"
      using b by (simp add: prod_eq_iff)
    from apply_interpretation_boost_shape[OF this] assms(2) sub show ?thesis by blast
  next
    case False
    then have "boosted = merged_results cfg e query" using b by auto
    then show ?thesis using assms(2) sub by blast
  qed
qed

lemma merged_results_plain: "m \<in> set (merged_results cfg e query) \<Longrightarrow> plain m"
  unfolding merged_results_def by (rule merged_plain)

lemma hybrid_boost_uses_selected_links:
  assumes "retrieve cfg e query k use_links = (ev, Inr rs)"
    and "r \<in> set rs"
    and "interprets_statute r = Some s"
  shows "\<exists>l \<in> set (interpretation_links e).
           case_id l = doc_id r \<and> statute_id l = s \<and>
           (verified l = Some True \<or> verified l = None)"
proof -
  have np: "\<not> plain r" using assms(3) by (simp add: plain_def)
  from retrieve_elem[OF assms(1,2)] merged_results_plain np
  obtain M where M: "boost_map_ok e (top20_statute_ids (merged_results cfg e query)) M"
    and r: "r \<in> set (boost_stage e M (merged_results cfg e query))"
    by blast
  let ?ids = "top20_statute_ids (merged_results cfg e query)"
  from boost_stage_elem[OF r]
  have "\<exists>kv \<in> set M. fst kv = doc_id r \<and> info_statute_id (snd kv) = s"
  proof
    assume "\<exists>m \<in> set (merged_results cfg e query). r = boost_result M m"
    then obtain m where m: "m \<in> set (merged_results cfg e query)" "r = boost_result M m"
      by blast
    from boost_result_plain[OF merged_results_plain[OF m(1)], of M] assms(3)
    show ?thesis unfolding m(2) by force
  next
    assume "\<exists>kv \<in> set M. \<exists>d. get_document e (fst kv) = Some d \<and>
            r = synthetic_result d
                  (0.7 * avg_score (map (boost_result M) (merged_results cfg e query))) (snd kv)"
    then obtain kv d where kv: "kv \<in> set M" "get_document e (fst kv) = Some d"
      "r = synthetic_result d
             (0.7 * avg_score (map (boost_result M) (merged_results cfg e query))) (snd kv)"
      by blast
    have "doc_id r = fst kv" using kv(2,3) get_document_id by (simp add: synthetic_result_def)
    moreover have "info_statute_id (snd kv) = s"
      using kv(3) assms(3) by (simp add: synthetic_result_def)
    ultimately show ?thesis using kv(1) by auto
  qed
  then obtain kv where kv: "kv \<in> set M" "fst kv = doc_id r" "info_statute_id (snd kv) = s"
    by blast
  from M kv(1) obtain l where l: "l \<in> set (interpretation_links e)" "link_selected ?ids l"
      "fst kv = case_id l" "snd kv = link_info l"
    unfolding boost_map_ok_def by blast
  have "case_id l = doc_id r \<and> statute_id l = s \<and> (verified l = Some True \<or> verified l = None)"
    using l kv by (auto simp: link_selected_def)
  then show ?thesis using l(1) by blast
qed

text \<open>The case \<open>c1\<close> is returned boosted by the factor 2 of a link whose
  \<^verbatim>\<open>verified\<close> column is NULL; no stored link has \<^verbatim>\<open>verified = true\<close>.\<close>

theorem link_with_null_verified_is_used:
  "map_option (map doc_id)
     (returned (retrieve default_config (demo_env three_hits unverified_links) ''q'' None True)) =
     Some [''s1'', ''c1'', ''c3''] \<and>
   map_option (map interprets_statute)
     (returned (retrieve default_config (demo_env three_hits unverified_links) ''q'' None True)) =
     Some [None, Some ''s1'', None] \<and>
   map_option (map interpretive_boost)
     (returned (retrieve default_config (demo_env three_hits unverified_links) ''q'' None True)) =
     Some [None, Some 2, None] \<and>
   map verified (interpretation_links (demo_env three_hits unverified_links)) =
     [None, Some False]"
  by code_simp

subsection \<open>Fusion weights\<close>




subsection \<open>Injected cases\<close>

lemma retrieve_boost_ran:
  assumes "retrieve cfg e query k use_links = (ev, Inr rs)" and "r \<in> set rs"
    and "\<not> plain r"
  shows "\<exists>out. apply_interpretation_boost e (merged_results cfg e query) query = (ev, Inr out) \<and>
               r \<in> set out"
proof -
  let ?merged = "merged_results cfg e query"
  let ?outcome = "if use_links \<and> interpretation_boost_enabled cfg
              then apply_interpretation_boost e ?merged query
              else ([], Inr ?merged)"
  from retrieve_returned_subset[OF assms(1)] obtain boosted where
    b: "snd ?outcome = Inr boosted" and sub: "set rs \<subseteq> set boosted"
    unfolding merged_results_def by blast
  have ev: "fst ?outcome = ev"
    using assms(1) unfolding retrieve_def merged_results_def Let_def by simp
  have flag: "use_links \<and> interpretation_boost_enabled cfg"
  proof (rule ccontr)
    assume "\<not> (use_links \<and> interpretation_boost_enabled cfg)"
    then have "boosted = ?merged" using b by auto
    then have "plain r" using assms(2) sub merged_results_plain by blast
    then show False using assms(3) by simp
  qed
  then have "apply_interpretation_boost e ?merged query = (ev, Inr boosted)"
    using b ev by (simp add: prod_eq_iff)
  then show ?thesis using assms(2) sub by blast
qed

lemma boost_stage_prefix:
  "take (length results) (boost_stage e M results) = map (boost_result M) results"
  by (simp add: boost_stage_def Let_def)

text \<open>C4 (amended). Every result that \<open>retrieve\<close> returns with the source
  \<^verbatim>\<open>interpretation_link\<close> was appended by the boost stage for a selected link whose
  \<^verbatim>\<open>case_id\<close> is not the \<^verbatim>\<open>doc_id\<close> of a fused result of type case. It is
  marked \<^verbatim>\<open>is_interpretive_case\<close> (the code has no key \<^verbatim>\<open>synthetic\<close>), and
  its score is 0.7 times the mean of the scores of the first ten fused results as they are
  after step 4 has multiplied the boosted ones by their factors, times the link's
  \<^verbatim>\<open>boost_factor\<close>.\<close>

theorem injected_case_score_uses_scores_after_boost:
  assumes "retrieve cfg e query k use_links = (ev, Inr rs)"
    and "r \<in> set rs"
    and "source r = Some ''interpretation_link''"
  shows "is_interpretive_case r \<and> doc_type r = ''case'' \<and>
         (\<exists>out. apply_interpretation_boost e (merged_results cfg e query) query = (ev, Inr out) \<and>
            r \<in> set out \<and>
            (\<forall>i < length (merged_results cfg e query).
               score (out ! i) =
                 score (merged_results cfg e query ! i) * boost_factor_of (out ! i)) \<and>
            (\<exists>l \<in> set (interpretation_links e).
               case_id l = doc_id r \<and> interprets_statute r = Some (statute_id l) \<and>
               score r =
                 0.7 * avg_score (take (length (merged_results cfg e query)) out) *
                 boost_factor l))"
proof -
  let ?merged = "merged_results cfg e query"
  have np: "\<not> plain r" using assms(3) by (simp add: plain_def)
  from retrieve_boost_ran[OF assms(1,2) np] obtain out where
    out: "apply_interpretation_boost e ?merged query = (ev, Inr out)" and r: "r \<in> set out"
    by blast
  from apply_interpretation_boost_shape[OF out] obtain M where
    M: "boost_map_ok e (top20_statute_ids ?merged) M" and o: "out = boost_stage e M ?merged"
    by blast
  have pre: "take (length ?merged) out = map (boost_result M) ?merged"
    unfolding o by (rule boost_stage_prefix)
  have prefix: "\<forall>i < length ?merged. score (out ! i) = score (?merged ! i) * boost_factor_of (out ! i)"
  proof (intro allI impI)
    fix i assume i: "i < length ?merged"
    have "length ?merged \<le> length out" unfolding o by (simp add: boost_stage_def Let_def)
    then have "out ! i = take (length ?merged) out ! i" using i by simp
    also have "\<dots> = boost_result M (?merged ! i)" unfolding pre using i by simp
    finally have oi: "out ! i = boost_result M (?merged ! i)" .
    have "plain (?merged ! i)" by (rule merged_results_plain[OF nth_mem[OF i]])
    from boost_result_plain[OF this, of M] show
      "score (out ! i) = score (?merged ! i) * boost_factor_of (out ! i)"
      unfolding oi boost_factor_of_def by simp
  qed
  from boost_stage_elem[OF r[unfolded o]]
  obtain kv d where kv: "kv \<in> set M" "get_document e (fst kv) = Some d"
      "r = synthetic_result d (0.7 * avg_score (map (boost_result M) ?merged)) (snd kv)"
  proof
    assume "\<exists>m \<in> set ?merged. r = boost_result M m"
    then obtain m where m: "m \<in> set ?merged" "r = boost_result M m" by blast
    from boost_result_plain[OF merged_results_plain[OF m(1)], of M] assms(3)
    show ?thesis unfolding m(2) by simp
  next
    assume "\<exists>kv \<in> set M. \<exists>d. get_document e (fst kv) = Some d \<and>
            r = synthetic_result d (0.7 * avg_score (map (boost_result M) ?merged)) (snd kv)"
    then show ?thesis using that by blast
  qed
  from M kv(1) obtain l where l: "l \<in> set (interpretation_links e)"
      "fst kv = case_id l" "snd kv = link_info l"
    unfolding boost_map_ok_def by blast
  have flags: "is_interpretive_case r \<and> doc_type r = ''case''"
    unfolding kv(3) by (simp add: synthetic_result_def)
  have "case_id l = doc_id r \<and> interprets_statute r = Some (statute_id l) \<and>
        score r = 0.7 * avg_score (take (length ?merged) out) * boost_factor l"
    unfolding pre using kv(2) l(2,3) get_document_id[OF kv(2)]
    by (simp add: kv(3) synthetic_result_def)
  then show ?thesis using flags out r prefix l(1) by blast
qed

theorem injected_case_score_uses_scores_after_boost_witness:
  "map_option (map source)
     (returned (retrieve default_config (demo_env three_hits inject_links) ''q'' None True)) =
     Some [None, None, Some ''interpretation_link'', None] \<and>
   is_interpretive_case
     (the (returned (retrieve default_config (demo_env three_hits inject_links) ''q'' None True)) ! 2) \<and>
   doc_type
     (the (returned (retrieve default_config (demo_env three_hits inject_links) ''q'' None True)) ! 2)
     = ''case''"
proof -
  let ?out = "retrieve default_config (demo_env three_hits inject_links) ''q'' None True"
  have a: "map_option (map source) (returned ?out) =
           Some [None, None, Some ''interpretation_link'', None]"
    by code_simp
  obtain ev rs where e: "?out = (ev, Inr rs)"
    using a by (cases ?out) (auto simp: returned_def split: sum.splits)
  have rs: "map source rs = [None, None, Some ''interpretation_link'', None]"
    using a e by (simp add: returned_def)
  then obtain r0 r1 r2 r3 where l: "rs = [r0, r1, r2, r3]"
    by (auto simp: map_eq_Cons_conv)
  have r2: "r2 \<in> set rs" "source r2 = Some ''interpretation_link''"
    using rs l by simp_all
  from injected_case_score_uses_scores_after_boost[OF e r2] a
  show ?thesis using e l by (simp add: returned_def)
qed

text \<open>The lexical search finds \<open>s1\<close>, \<open>c1\<close> and \<open>c3\<close> with fused scores 0.4, 0.2 and 0;
  \<open>c1\<close> is boosted to 0.4; the injected case \<open>c5\<close> gets
  \<open>0.7 \<cdot> ((0.4 + 0.4 + 0) / 3) \<cdot> 2 = 28/75\<close>, not
  \<open>0.7 \<cdot> ((0.4 + 0.2 + 0) / 3) \<cdot> 2 = 0.28\<close>.\<close>

theorem injected_score_differs_from_pre_boost_mean:
  "map doc_id (merged_results default_config (demo_env three_hits inject_links) ''q'') =
     [''s1'', ''c1'', ''c3''] \<and>
   map score (merged_results default_config (demo_env three_hits inject_links) ''q'') =
     [0.4, 0.2, 0] \<and>
   map_option (map doc_id)
     (returned (retrieve default_config (demo_env three_hits inject_links) ''q'' None True)) =
     Some [''s1'', ''c1'', ''c5'', ''c3''] \<and>
   map_option (map source)
     (returned (retrieve default_config (demo_env three_hits inject_links) ''q'' None True)) =
     Some [None, None, Some ''interpretation_link'', None] \<and>
   map_option (map score)
     (returned (retrieve default_config (demo_env three_hits inject_links) ''q'' None True)) =
     Some [0.4, 0.4, 28 / 75, 0] \<and>
   (28 / 75 :: real) \<noteq> 0.7 * ((0.4 + 0.2 + 0) / 3) * 2"
  by code_simp

subsection \<open>Failure of the embedding call\<close>

lemma dense_search_embedding_failed:
  "embed e query = Inl ex \<Longrightarrow> dense_search e query k = []"
  by (simp add: dense_search_def)

lemma apply_interpretation_boost_returns:
  assumes "db_up e"
  shows "\<exists>out. snd (apply_interpretation_boost e results query) = Inr out"
  using assms by (simp add: apply_interpretation_boost_def Let_def)

lemma retrieve_returns:
  assumes "db_up e"
  shows "\<exists>rs. snd (retrieve cfg e query k use_links) = Inr rs"
proof -
  let ?merged = "merge_results cfg (bm25_search e query 200) (dense_search e query 200) 500"
  obtain out where "snd (apply_interpretation_boost e ?merged query) = Inr out"
    using apply_interpretation_boost_returns[OF assms] by blast
  then show ?thesis by (simp add: retrieve_def Let_def)
qed

lemma lexical_only_merged:
  assumes "dense_search e query 200 = []" and "m \<in> set (merged_results cfg e query)"
  shows "plain m \<and> lexical_only cfg (normalize_scores (bm25_search e query 200)) m \<and>
         boost_factor_of m = 1"
proof -
  have p: "plain m" by (rule merged_results_plain[OF assms(2)])
  then have b: "boost_factor_of m = 1" by (simp add: plain_def boost_factor_of_def)
  from assms have "m \<in> set (merge_results cfg (bm25_search e query 200) [] 500)"
    by (simp add: merged_results_def)
  from lexical_only_merge[OF this] obtain x where
    x: "x \<in> set (normalize_scores (bm25_search e query 200))"
       "m = x\<lparr>bm25_score := Some (score x), dense_score := Some 0,
               combined_score := Some (bm25_weight cfg * score x),
               score := bm25_weight cfg * score x\<rparr>"
    by blast
  have "doc_id m = doc_id x \<and> bm25_score m = Some (score x) \<and> dense_score m = Some 0 \<and>
        combined_score m = Some (bm25_weight cfg * score x) \<and>
        score m = bm25_weight cfg * score x"
    by (subst (1 2 3 4 5) x(2)) simp
  then have "lexical_only cfg (normalize_scores (bm25_search e query 200)) m"
    unfolding lexical_only_def using x(1) b by auto
  then show ?thesis using p b by simp
qed

lemma lexical_only_boosted:
  assumes "plain m" and "lexical_only cfg lexs m" and "boost_factor_of m = 1"
  shows "lexical_only cfg lexs (boost_result M m)"
proof -
  from assms(2) obtain x where x: "x \<in> set lexs" "doc_id m = doc_id x"
      "bm25_score m = Some (score x)" "dense_score m = Some 0"
      "combined_score m = Some (bm25_weight cfg * score x)"
      "score m = bm25_weight cfg * score x * boost_factor_of m"
    unfolding lexical_only_def by blast
  from boost_result_plain[OF assms(1), of M]
  have "doc_id (boost_result M m) = doc_id x \<and>
        bm25_score (boost_result M m) = Some (score x) \<and>
        dense_score (boost_result M m) = Some 0 \<and>
        combined_score (boost_result M m) = Some (bm25_weight cfg * score x) \<and>
        score (boost_result M m) =
          bm25_weight cfg * score x * boost_factor_of (boost_result M m)"
    using x(2-6) assms(3) by (simp add: boost_factor_of_def)
  then show ?thesis unfolding lexical_only_def using x(1) by blast
qed

text \<open>C8 (amended). If the embedding call raises, dense search returns the empty list;
  if moreover the database answers, \<open>retrieve\<close> returns a list (no exception reaches the
  caller), and every returned result that is not an injected interpretive case has dense
  score 0, a fused score equal to the lexical weight times its normalised lexical score,
  and a final score equal to that value times the factor it was boosted by (1 when it was
  not boosted).\<close>

theorem embedding_failure_degrades_to_lexical_scores:
  assumes "embed e query = Inl ex" and "db_up e"
  shows "dense_search e query 200 = [] \<and>
         (\<exists>rs. snd (retrieve cfg e query k use_links) = Inr rs \<and>
            (\<forall>r \<in> set rs.
               source r = Some ''interpretation_link'' \<or>
               (\<exists>x \<in> set (normalize_scores (bm25_search e query 200)).
                  doc_id r = doc_id x \<and> bm25_score r = Some (score x) \<and>
                  dense_score r = Some 0 \<and>
                  combined_score r = Some (bm25_weight cfg * score x) \<and>
                  score r = bm25_weight cfg * score x * boost_factor_of r)))"
proof -
  let ?lexs = "normalize_scores (bm25_search e query 200)"
  have d: "dense_search e query 200 = []"
    by (rule dense_search_embedding_failed[OF assms(1)])
  obtain rs where rs: "snd (retrieve cfg e query k use_links) = Inr rs"
    using retrieve_returns[OF assms(2)] by blast
  then have e: "retrieve cfg e query k use_links =
                (fst (retrieve cfg e query k use_links), Inr rs)"
    by (simp add: prod_eq_iff)
  have "\<forall>r \<in> set rs. source r = Some ''interpretation_link'' \<or> lexical_only cfg ?lexs r"
  proof
    fix r assume r: "r \<in> set rs"
    from retrieve_elem[OF e r]
    show "source r = Some ''interpretation_link'' \<or> lexical_only cfg ?lexs r"
    proof
      assume "r \<in> set (merged_results cfg e query)"
      then show ?thesis using lexical_only_merged[OF d] by blast
    next
      assume "\<exists>M. boost_map_ok e (top20_statute_ids (merged_results cfg e query)) M \<and>
                  r \<in> set (boost_stage e M (merged_results cfg e query))"
      then obtain M where "r \<in> set (boost_stage e M (merged_results cfg e query))" by blast
      from boost_stage_elem[OF this] show ?thesis
      proof
        assume "\<exists>m \<in> set (merged_results cfg e query). r = boost_result M m"
        then obtain m where m: "m \<in> set (merged_results cfg e query)" "r = boost_result M m"
          by blast
        from lexical_only_merged[OF d m(1)] lexical_only_boosted
        show ?thesis unfolding m(2) by blast
      next
        assume "\<exists>kv \<in> set M. \<exists>d. get_document e (fst kv) = Some d \<and>
            r = synthetic_result d
                  (0.7 * avg_score (map (boost_result M) (merged_results cfg e query))) (snd kv)"
        then show ?thesis by (auto simp: synthetic_result_def)
      qed
    qed
  qed
  then show ?thesis using d rs unfolding lexical_only_def by blast
qed

theorem embedding_failure_degrades_to_lexical_scores_witness:
  "embed (demo_env three_hits unverified_links) ''q'' = Inl EmbeddingFailed \<and>
   db_up (demo_env three_hits unverified_links) \<and>
   dense_search (demo_env three_hits unverified_links) ''q'' 200 = [] \<and>
   map_option (map doc_id)
     (returned (retrieve default_config (demo_env three_hits unverified_links) ''q'' None True)) =
     Some [''s1'', ''c1'', ''c3''] \<and>
   (\<exists>rs. snd (retrieve default_config (demo_env three_hits unverified_links) ''q'' None True) =
           Inr rs)"
proof -
  have a: "embed (demo_env three_hits unverified_links) ''q'' = Inl EmbeddingFailed"
      and b: "db_up (demo_env three_hits unverified_links)"
    by (simp_all add: demo_env_def)
  have c: "map_option (map doc_id)
     (returned (retrieve default_config (demo_env three_hits unverified_links) ''q'' None True)) =
     Some [''s1'', ''c1'', ''c3'']"
    by code_simp
  from embedding_failure_degrades_to_lexical_scores[OF a b, of default_config None True] a b c
  show ?thesis by blast
qed

text \<open>The embedding call raises and the lexical search returns only the statute \<open>s1\<close>.
  The returned list starts with the case \<open>c5\<close>, which no search returned: it was injected
  for a verified link, carries no fused score, and ranks above the only lexical hit.\<close>

theorem lexical_only_ranking_gets_injected_case:
  "embed (demo_env one_hit one_link) ''q'' = Inl EmbeddingFailed \<and>
   map doc_id (bm25_search (demo_env one_hit one_link) ''q'' 200) = [''s1''] \<and>
   map_option (map doc_id)
     (returned (retrieve default_config (demo_env one_hit one_link) ''q'' None True)) =
     Some [''c5'', ''s1''] \<and>
   map_option (map combined_score)
     (returned (retrieve default_config (demo_env one_hit one_link) ''q'' None True)) =
     Some [None, Some 0.4] \<and>
   map_option (map bm25_score)
     (returned (retrieve default_config (demo_env one_hit one_link) ''q'' None True)) =
     Some [None, Some 1] \<and>
   map_option (map score)
     (returned (retrieve default_config (demo_env one_hit one_link) ''q'' None True)) =
     Some [0.56, 0.4]"
  by code_simp

subsection \<open>Ranges of stored links\<close>

lemma insert_links_rows:
  "w \<in> set (insert_links constraints vs store) \<Longrightarrow> w \<in> set store \<or> constraints w"
proof (induction vs arbitrary: store)
  case Nil
  then show ?case by simp
next
  case (Cons v vs)
  let ?s = "case insert_link constraints store v of Inl err \<Rightarrow> store | Inr store' \<Rightarrow> store'"
  have "w \<in> set ?s \<or> constraints w" using Cons.IH[of ?s] Cons.prems by simp
  moreover have "w \<in> set ?s \<Longrightarrow> w \<in> set store \<or> constraints w"
    by (auto simp: insert_link_def split: if_splits)
  ultimately show ?case by blast
qed

text \<open>C1 (amended). A link admitted under the constraints of the model class
  (\<^verbatim>\<open>database/models/interpretation_link.py\<close>) has a boost factor in \<open>[1, 5]\<close> and
  an applicability score that is absent or in \<open>[0, 1]\<close>. Under the constraints of the
  migration the boost factor is in \<open>[1, 3]\<close> and the applicability score absent or in
  \<open>[0, 1]\<close>. Under \<^verbatim>\<open>database/models.py\<close> the boost factor is absent or in
  \<open>[1, 3]\<close>, and the applicability score is not constrained.\<close>

theorem admitted_link_ranges:
  "(w \<in> set (insert_links model_class_constraints vs []) \<longrightarrow>
      (\<exists>b. v_boost_factor w = Some b \<and> 1 \<le> b \<and> b \<le> 5) \<and>
      (\<forall>a. v_applicability_score w = Some a \<longrightarrow> 0 \<le> a \<and> a \<le> 1)) \<and>
   (w \<in> set (insert_links migration_constraints vs []) \<longrightarrow>
      (\<exists>b. v_boost_factor w = Some b \<and> 1 \<le> b \<and> b \<le> 3) \<and>
      (\<forall>a. v_applicability_score w = Some a \<longrightarrow> 0 \<le> a \<and> a \<le> 1)) \<and>
   (w \<in> set (insert_links models_py_constraints vs []) \<longrightarrow>
      (\<forall>b. v_boost_factor w = Some b \<longrightarrow> 1 \<le> b \<and> b \<le> 3))"
proof (intro conjI impI)
  assume "w \<in> set (insert_links model_class_constraints vs [])"
  then have c: "model_class_constraints w" using insert_links_rows by fastforce
  then show "\<exists>b. v_boost_factor w = Some b \<and> 1 \<le> b \<and> b \<le> 5"
    by (auto simp: model_class_constraints_def check_range_def)
  show "\<forall>a. v_applicability_score w = Some a \<longrightarrow> 0 \<le> a \<and> a \<le> 1"
    using c by (auto simp: model_class_constraints_def check_range_def)
next
  assume "w \<in> set (insert_links migration_constraints vs [])"
  then have c: "migration_constraints w" using insert_links_rows by fastforce
  then show "\<exists>b. v_boost_factor w = Some b \<and> 1 \<le> b \<and> b \<le> 3"
    by (auto simp: migration_constraints_def check_range_def)
  show "\<forall>a. v_applicability_score w = Some a \<longrightarrow> 0 \<le> a \<and> a \<le> 1"
    using c by (auto simp: migration_constraints_def check_range_def)
next
  assume "w \<in> set (insert_links models_py_constraints vs [])"
  then have c: "models_py_constraints w" using insert_links_rows by fastforce
  then show "\<forall>b. v_boost_factor w = Some b \<longrightarrow> 1 \<le> b \<and> b \<le> 3"
    by (auto simp: models_py_constraints_def check_range_def)
qed

theorem admitted_link_ranges_witness:
  "demo_values (Some 2.8) (Some 0.7) \<in>
     set (insert_links model_class_constraints [demo_values (Some 2.8) (Some 0.7)] []) \<and>
   demo_values (Some 2.8) (Some 0.7) \<in>
     set (insert_links migration_constraints [demo_values (Some 2.8) (Some 0.7)] []) \<and>
   demo_values (Some 2.8) (Some 0.7) \<in>
     set (insert_links models_py_constraints [demo_values (Some 2.8) (Some 0.7)] []) \<and>
   (\<exists>b. v_boost_factor (demo_values (Some 2.8) (Some 0.7)) = Some b \<and> 1 \<le> b \<and> b \<le> 3)"
proof -
  let ?v = "demo_values (Some 2.8) (Some 0.7)"
  have a: "?v \<in> set (insert_links model_class_constraints [?v] [])"
    by (simp add: insert_link_def model_class_constraints_def check_range_def
        unique_statute_case_pair_def demo_values_def)
  have b: "?v \<in> set (insert_links migration_constraints [?v] [])"
    by (simp add: insert_link_def migration_constraints_def check_range_def check_in_def
        unique_statute_case_pair_def demo_values_def interpretation_types_def authorities_def)
  have c: "?v \<in> set (insert_links models_py_constraints [?v] [])"
    by (simp add: insert_link_def models_py_constraints_def check_range_def
        unique_statute_case_pair_def demo_values_def interpretation_types_def authorities_def)
  from admitted_link_ranges[of ?v "[?v]"] a b c show ?thesis by blast
qed

text \<open>The constraints of the model class admit a link with boost factor 4.0, and those
  of \<^verbatim>\<open>database/models.py\<close> admit a link with applicability score 1.5.\<close>

theorem link_outside_claimed_ranges_is_admitted:
  "insert_link model_class_constraints [] (demo_values (Some 4.0) (Some 0.7)) =
     Inr [demo_values (Some 4.0) (Some 0.7)] \<and>
   v_boost_factor (demo_values (Some 4.0) (Some 0.7)) = Some 4.0 \<and>
   (3.0 :: real) < 4.0 \<and>
   insert_link models_py_constraints [] (demo_values (Some 2.0) (Some 1.5)) =
     Inr [demo_values (Some 2.0) (Some 1.5)] \<and>
   v_applicability_score (demo_values (Some 2.0) (Some 1.5)) = Some 1.5 \<and>
   (1 :: real) < 1.5"
  by (simp add: insert_link_def model_class_constraints_def models_py_constraints_def
      check_range_def unique_statute_case_pair_def demo_values_def interpretation_types_def
      authorities_def)

subsection \<open>Loading documents twice\<close>

lemma duplicate_hash_rejected:
  assumes "Some (p_hash doc) \<in> set (map d_hash (visible s))"
  shows "add_and_flush s (db_doc doc) = Inl IntegrityError"
  using assms by (simp add: add_and_flush_def insert_allowed_def db_doc_def)

text \<open>A document whose hash is already in the table, or among the rows flushed in the
  open transaction, is not inserted: the INSERT violates the unique constraint, the
  handler rolls the transaction back and records a skip. The flags of the loader play no
  part.\<close>

lemma load_single_document_duplicate_hash:
  assumes "Some (p_hash doc) \<in> set (map d_hash (visible s))"
  shows "load_single_document loader s doc r =
           (s\<lparr>pending := []\<rparr>, add_skip (p_id doc) ''integrity error'' r)"
  using duplicate_hash_rejected[OF assms]
  by (simp add: load_single_document_def rollback_def)

lemma load_each_all_present:
  assumes "\<forall>doc \<in> set docs. Some (p_hash doc) \<in> set (map d_hash (committed s))"
    and "pending s = []"
  shows "fst (load_each loader docs (s, r)) = s \<and>
         inserted (snd (load_each loader docs (s, r))) = inserted r"
  using assms
proof (induction docs arbitrary: r)
  case Nil
  then show ?case by simp
next
  case (Cons doc docs)
  have "Some (p_hash doc) \<in> set (map d_hash (visible s))"
    using Cons.prems(1) by (simp add: visible_def)
  then have step: "load_single_document loader s doc r =
                   (s, add_skip (p_id doc) ''integrity error'' r)"
    using load_single_document_duplicate_hash[of doc s loader r] Cons.prems(2) by simp
  have "fst (load_each loader docs (s, add_skip (p_id doc) ''integrity error'' r)) = s \<and>
        inserted (snd (load_each loader docs (s, add_skip (p_id doc) ''integrity error'' r))) =
          inserted (add_skip (p_id doc) ''integrity error'' r)"
    using Cons.IH Cons.prems by simp
  then show ?case using step by (simp add: add_skip_def)
qed

lemma load_batch_all_present:
  assumes "\<forall>doc \<in> set batch. Some (p_hash doc) \<in> set (map d_hash table)"
  shows "fst (load_batch loader batch (table, r)) = table \<and>
         inserted (snd (load_batch loader batch (table, r))) = inserted r"
proof -
  let ?s = "\<lparr>committed = table, pending = []\<rparr>"
  have "fst (load_each loader (sort_key p_level batch) (?s, r)) = ?s \<and>
        inserted (snd (load_each loader (sort_key p_level batch) (?s, r))) = inserted r"
    by (rule load_each_all_present) (use assms in simp_all)
  then show ?thesis by (simp add: load_batch_def Let_def commit_def)
qed

lemma load_batches_all_present:
  assumes "\<forall>b \<in> set bs. \<forall>doc \<in> set b. Some (p_hash doc) \<in> set (map d_hash table)"
  shows "fst (load_batches loader bs (table, r)) = table \<and>
         inserted (snd (load_batches loader bs (table, r))) = inserted r"
  using assms
proof (induction bs arbitrary: r)
  case Nil
  then show ?case by simp
next
  case (Cons b bs)
  have b: "load_batch loader b (table, r) = (table, snd (load_batch loader b (table, r)))"
      "inserted (snd (load_batch loader b (table, r))) = inserted r"
    using load_batch_all_present[of b table loader r] Cons.prems
    by (simp_all add: prod_eq_iff)
  show ?case
    using Cons.IH[of "snd (load_batch loader b (table, r))"] Cons.prems b
    by (subst load_batches.simps, subst b(1)) simp
qed

lemma set_batches: "b \<in> set (batches n xs) \<Longrightarrow> set b \<subseteq> set xs"
proof (induction n xs rule: batches.induct)
  case (1 xs)
  then show ?case by simp
next
  case (2 n)
  then show ?case by simp
next
  case (3 n x xs)
  from "3.prems" have "b = x # take n xs \<or> b \<in> set (batches (Suc n) (drop n xs))"
    by simp
  then show ?case
  proof
    assume "b = x # take n xs"
    then show ?thesis by (auto dest: in_set_takeD)
  next
    assume "b \<in> set (batches (Suc n) (drop n xs))"
    then have "set b \<subseteq> set (drop n xs)" by (rule "3.IH")
    then show ?thesis by (auto dest: in_set_dropD)
  qed
qed

text \<open>When every document of the list already has its hash in the table, loading the
  list changes nothing and reports no insertion.\<close>

lemma load_documents_all_present:
  assumes "\<forall>doc \<in> set docs. Some (p_hash doc) \<in> set (map d_hash table)"
    and "0 < batch_size"
  shows "\<exists>r. load_documents loader table docs batch_size = Inr (table, r) \<and> inserted r = 0"
proof -
  let ?r0 = "\<lparr>status = ''success'', total_documents = length docs, inserted = 0,
                skipped = 0, errors = 0, error_messages = [], skipped_ids = [],
                inserted_ids = []\<rparr>"
  have "\<forall>b \<in> set (batches batch_size docs). \<forall>doc \<in> set b.
          Some (p_hash doc) \<in> set (map d_hash table)"
    using assms(1) set_batches by blast
  from load_batches_all_present[OF this, of loader ?r0]
  show ?thesis using assms(2) by (auto simp: load_documents_def Let_def)
qed

text \<open>C6. Loading the same documents a second time can insert a new document. The input:
  four root documents, of which \<open>a\<close> and \<open>c\<close> have the same text and so the same hash,
  as have \<open>b\<close> and \<open>e\<close>; an empty table; batches of three. In the first run the
  duplicate \<open>c\<close> makes the handler roll back the transaction that holds \<open>a\<close> and \<open>b\<close>,
  which were already counted as inserted, and only \<open>e\<close> is stored. In the second run
  \<open>b\<close> collides with \<open>e\<close>, the rollback discards \<open>a\<close>, and \<open>c\<close> now finds no row with
  its hash: it is inserted.\<close>

theorem second_ingestion_inserts_new_document:
  "\<exists>t1 r1 t2 r2.
     ingest_twice default_loader [] four_docs 3 = Inr ((t1, r1), (t2, r2)) \<and>
     map d_id t1 = [''e''] \<and> inserted_ids r1 = [''a'', ''b'', ''e''] \<and>
     skipped_ids r1 = [''c''] \<and>
     map d_id t2 = [''e'', ''c''] \<and> inserted_ids r2 = [''a'', ''c''] \<and>
     skipped_ids r2 = [''b'', ''e'']"
proof -
  let ?t1 = "[db_doc (root_doc ''e'' ''[Deleted]'')]"
  let ?r1 = "\<lparr>status = ''success'', total_documents = 4, inserted = 3, skipped = 1,
              errors = 0, error_messages = [''Skipped c: integrity error''],
              skipped_ids = [''c''], inserted_ids = [''a'', ''b'', ''e'']\<rparr>"
  let ?t2 = "[db_doc (root_doc ''e'' ''[Deleted]''), db_doc (root_doc ''c'' ''[Repealed]'')]"
  let ?r2 = "\<lparr>status = ''success'', total_documents = 4, inserted = 2, skipped = 2,
              errors = 0,
              error_messages = [''Skipped b: integrity error'', ''Skipped e: integrity error''],
              skipped_ids = [''b'', ''e''], inserted_ids = [''a'', ''c'']\<rparr>"
  have first: "load_documents default_loader [] four_docs 3 = Inr (?t1, ?r1)"
    by code_simp
  have second: "load_documents default_loader ?t1 four_docs 3 = Inr (?t2, ?r2)"
    by code_simp
  have "ingest_twice default_loader [] four_docs 3 = Inr ((?t1, ?r1), (?t2, ?r2))"
    unfolding ingest_twice_def and_then_def first sum.case fst_conv second ..
  moreover have "map d_id ?t1 = [''e'']" "map d_id ?t2 = [''e'', ''c'']"
    by (simp_all add: db_doc_def root_doc_def)
  ultimately show ?thesis by simp
qed

subsection \<open>The interpretation-aware retriever\<close>

lemma aware_diversify_loop_step:
  "aware_diversify_loop mx k c acc (r # rs) = acc @ [r] \<or>
   aware_diversify_loop mx k c acc (r # rs) = aware_diversify_loop mx k c acc rs \<or>
   aware_diversify_loop mx k c acc (r # rs) =
     aware_diversify_loop mx k
       (if c_is_interpretive r
        then c(c_interprets_statute r \<mapsto>
               (case c (c_interprets_statute r) of None \<Rightarrow> 0 | Some n \<Rightarrow> n) + 1)
        else c)
       (acc @ [r]) rs"
  by (simp add: Let_def del: fun_upd_apply)

lemma aware_diversify_loop_subset:
  "x \<in> set (aware_diversify_loop mx k c acc rs) \<Longrightarrow> x \<in> set acc \<or> x \<in> set rs"
proof (induction rs arbitrary: c acc)
  case Nil
  then show ?case by simp
next
  case (Cons r rs)
  from aware_diversify_loop_step[of mx k c acc r rs] Cons.prems
  consider "x \<in> set (acc @ [r])"
    | "x \<in> set (aware_diversify_loop mx k c acc rs)"
    | c' where "x \<in> set (aware_diversify_loop mx k c' (acc @ [r]) rs)"
    by metis
  then show ?case
  proof cases
    case 1
    then show ?thesis by auto
  next
    case 2
    then show ?thesis using Cons.IH by fastforce
  next
    case 3
    then show ?thesis using Cons.IH[of c' "acc @ [r]"] by auto
  qed
qed

lemma aware_diversify_loop_cap:
  assumes "0 \<le> mx"
    and "\<forall>key. counted key acc = (case c key of None \<Rightarrow> 0 | Some n \<Rightarrow> n)"
    and "\<forall>key. int (counted key acc) \<le> mx"
  shows "int (counted key (aware_diversify_loop mx k c acc rs)) \<le> mx"
  using assms
proof (induction rs arbitrary: c acc)
  case Nil
  then show ?case by simp
next
  case (Cons r rs)
  show ?case
  proof (cases "c_is_interpretive r")
    case False
    have a: "\<forall>key. counted key (acc @ [r]) = counted key acc"
      using False by (simp add: counted_def)
    have step: "aware_diversify_loop mx k c acc (r # rs) =
                (if int (length (acc @ [r])) \<ge> k then acc @ [r]
                 else aware_diversify_loop mx k c (acc @ [r]) rs)"
      using False by simp
    have "int (counted key (aware_diversify_loop mx k c (acc @ [r]) rs)) \<le> mx"
      by (rule Cons.IH[OF Cons.prems(1)]) (use a Cons.prems in simp_all)
    then show ?thesis unfolding step using a Cons.prems(3) by simp
  next
    case True
    let ?t = "c_interprets_statute r"
    let ?count = "case c ?t of None \<Rightarrow> 0 | Some n \<Rightarrow> n"
    show ?thesis
    proof (cases "int ?count \<ge> mx")
      case skip: True
      then have "aware_diversify_loop mx k c acc (r # rs) = aware_diversify_loop mx k c acc rs"
        using True by (simp add: Let_def)
      then show ?thesis using Cons.IH[OF Cons.prems] by simp
    next
      case False
      have len: "\<forall>key. counted key (acc @ [r]) =
                  (case (c(?t \<mapsto> ?count + 1)) key of None \<Rightarrow> 0 | Some n \<Rightarrow> n)"
        using True Cons.prems(2) by (auto simp: counted_def)
      have cap: "\<forall>key. int (counted key (acc @ [r])) \<le> mx"
      proof
        fix u
        show "int (counted u (acc @ [r])) \<le> mx"
        proof (cases "u = ?t")
          case eq: True
          have "counted ?t (acc @ [r]) = ?count + 1"
            using True Cons.prems(2) by (simp add: counted_def)
          then show ?thesis using False eq by simp
        next
          case ne: False
          then have "counted u (acc @ [r]) = counted u acc"
            by (auto simp: counted_def)
          then show ?thesis using Cons.prems(3) by simp
        qed
      qed
      have ih: "int (counted key
                  (aware_diversify_loop mx k (c(?t \<mapsto> ?count + 1)) (acc @ [r]) rs)) \<le> mx"
        by (rule Cons.IH[OF Cons.prems(1) len cap])
      have step: "aware_diversify_loop mx k c acc (r # rs) =
                  (if int (length (acc @ [r])) \<ge> k then acc @ [r]
                   else aware_diversify_loop mx k (c(?t \<mapsto> ?count + 1)) (acc @ [r]) rs)"
        using True False by (simp add: Let_def del: fun_upd_apply)
      show ?thesis unfolding step using ih cap by (simp del: fun_upd_apply)
    qed
  qed
qed

lemma aware_retrieve_cap:
  assumes "0 \<le> max_interpretive_per_statute cfg"
    and "aware_retrieve cfg e query k = Inr rs"
  shows "int (length (aware_interpreting s rs)) \<le> max_interpretive_per_statute cfg"
proof -
  from assms(2) consider "rs = []"
    | cands where "rs = diversify_and_rerank cfg cands
        (case k of None \<Rightarrow> aware_top_k cfg | Some n \<Rightarrow> if n = 0 then aware_top_k cfg else n)"
    by (auto simp: aware_retrieve_def Let_def split: sum.splits if_splits)
  then show ?thesis
  proof cases
    case 1
    then show ?thesis using assms(1) by (simp add: aware_interpreting_def)
  next
    case 2
    have "int (counted (Some s) rs) \<le> max_interpretive_per_statute cfg"
      unfolding 2 diversify_and_rerank_def
      by (rule aware_diversify_loop_cap) (simp_all add: assms(1) counted_def)
    then show ?thesis by (simp add: counted_def aware_interpreting_def)
  qed
qed

lemma aware_select_rows_linked:
  assumes "row \<in> set (aware_select_rows e ids)"
  shows "link_verified_for e (fst row) (ic_case_id (snd row))"
proof -
  from assms obtain l where l: "l \<in> set (interpretation_links e)" "aware_link_selected ids l"
      "row \<in> set (join_document e l)"
    by (auto simp: aware_select_rows_def)
  then have "fst row = statute_id l \<and> ic_case_id (snd row) = case_id l"
    by (auto simp: join_document_def joined_row_def split: option.splits)
  then show ?thesis
    using l(1,2) unfolding link_verified_for_def aware_link_selected_def by auto
qed

lemma organize_by_statute_linked:
  assumes "\<forall>row \<in> set rows. P (fst row) (snd row)"
    and "\<forall>entry \<in> set m. \<forall>ic \<in> set (snd entry). P (fst entry) ic"
  shows "\<forall>entry \<in> set (organize_by_statute rows m). \<forall>ic \<in> set (snd entry). P (fst entry) ic"
  using assms
proof (induction rows arbitrary: m)
  case Nil
  then show ?case by simp
next
  case (Cons row rows)
  let ?old = "case map_of m (fst row) of None \<Rightarrow> [] | Some cases \<Rightarrow> cases"
  have old: "\<forall>ic \<in> set ?old. P (fst row) ic"
  proof (cases "map_of m (fst row)")
    case None
    then show ?thesis by simp
  next
    case (Some cases)
    then have "(fst row, cases) \<in> set m" by (rule map_of_SomeD)
    then show ?thesis using Cons.prems(2) Some by fastforce
  qed
  have "\<forall>entry \<in> set (dict_set (fst row) (?old @ [snd row]) m).
          \<forall>ic \<in> set (snd entry). P (fst entry) ic"
  proof
    fix entry assume "entry \<in> set (dict_set (fst row) (?old @ [snd row]) m)"
    then have "entry = (fst row, ?old @ [snd row]) \<or> entry \<in> set m"
      using in_dict_set[of "fst entry" "snd entry"] by simp
    then show "\<forall>ic \<in> set (snd entry). P (fst entry) ic"
    proof
      assume "entry = (fst row, ?old @ [snd row])"
      then have "fst entry = fst row" "set (snd entry) = set ?old \<union> {snd row}" by simp_all
      then show ?thesis using old Cons.prems(1) by simp
    next
      assume "entry \<in> set m"
      then show ?thesis using Cons.prems(2) by blast
    qed
  qed
  then show ?case using Cons.IH Cons.prems(1) by simp
qed

lemma boost_first_linked:
  assumes "\<forall>r \<in> set docs. c_is_interpretive r \<longrightarrow> aware_linked e r"
    and "link_verified_for e statute ci"
  shows "\<forall>r \<in> set (boost_first statute ci ic docs). c_is_interpretive r \<longrightarrow> aware_linked e r"
  using assms
proof (induction docs)
  case Nil
  then show ?case by simp
next
  case (Cons doc docs)
  show ?case
  proof (cases "c_id doc = ci")
    case True
    then show ?thesis using Cons.prems by (auto simp: aware_linked_def)
  next
    case False
    then show ?thesis using Cons by auto
  qed
qed

lemma boost_cases_linked:
  assumes "\<forall>r \<in> set (fst st). c_is_interpretive r \<longrightarrow> aware_linked e r"
    and "\<forall>ic \<in> set ics. link_verified_for e statute (ic_case_id ic)"
  shows "\<forall>r \<in> set (fst (boost_cases cfg existing statute sc ics st)).
           c_is_interpretive r \<longrightarrow> aware_linked e r"
  using assms
proof (induction ics arbitrary: st)
  case Nil
  then show ?case by simp
next
  case (Cons ic ics)
  let ?st' = "if ic_case_id ic \<in> set existing
        then (boost_first statute (ic_case_id ic) ic (fst st), snd st)
        else if ic_case_id ic \<notin> set (snd st)
        then (fst st @ [synthetic_candidate cfg statute sc ic], snd st @ [ic_case_id ic])
        else st"
  have l: "link_verified_for e statute (ic_case_id ic)" using Cons.prems(2) by simp
  have syn: "aware_linked e (synthetic_candidate cfg statute sc ic)"
    using l by (simp add: aware_linked_def synthetic_candidate_def)
  have inv: "\<forall>r \<in> set (fst ?st'). c_is_interpretive r \<longrightarrow> aware_linked e r"
  proof (cases "ic_case_id ic \<in> set existing")
    case True
    then have "fst ?st' = boost_first statute (ic_case_id ic) ic (fst st)" by simp
    then show ?thesis using boost_first_linked[OF Cons.prems(1) l] by simp
  next
    case False
    show ?thesis
    proof (cases "ic_case_id ic \<in> set (snd st)")
      case True
      then have "?st' = st" using False by simp
      then show ?thesis using Cons.prems(1) by simp
    next
      case notin: False
      then have "fst ?st' = fst st @ [synthetic_candidate cfg statute sc ic]"
        using False by simp
      then show ?thesis using Cons.prems(1) syn by simp
    qed
  qed
  have rest: "\<forall>ic \<in> set ics. link_verified_for e statute (ic_case_id ic)"
    using Cons.prems(2) by simp
  have "boost_cases cfg existing statute sc (ic # ics) st =
        boost_cases cfg existing statute sc ics ?st'"
    by (rule boost_cases.simps(2))
  then show ?case using Cons.IH[OF inv rest] by (simp only:)
qed

lemma boost_statutes_linked:
  assumes "\<forall>r \<in> set (fst st). c_is_interpretive r \<longrightarrow> aware_linked e r"
    and "\<forall>entry \<in> set entries. \<forall>ic \<in> set (snd entry).
           link_verified_for e (fst entry) (ic_case_id ic)"
  shows "\<forall>r \<in> set (fst (boost_statutes cfg n existing entries st)).
           c_is_interpretive r \<longrightarrow> aware_linked e r"
  using assms
proof (induction entries arbitrary: st)
  case Nil
  then show ?case by simp
next
  case (Cons entry entries)
  let ?sc = "case find (\<lambda>doc. c_id doc = fst entry) (take n (fst st)) of
               Some doc \<Rightarrow> c_score doc | None \<Rightarrow> 0.5"
  let ?ics = "py_take (max_interpretive_per_statute cfg) (snd entry)"
  have "\<forall>ic \<in> set ?ics. link_verified_for e (fst entry) (ic_case_id ic)"
    using Cons.prems(2) set_py_take[of _ "snd entry"] by auto
  from boost_cases_linked[OF Cons.prems(1) this]
  have "\<forall>r \<in> set (fst (boost_cases cfg existing (fst entry) ?sc ?ics st)).
           c_is_interpretive r \<longrightarrow> aware_linked e r" .
  then show ?case using Cons.IH Cons.prems(2) by simp
qed

lemma aware_dense_hit_plain: "r \<in> set (aware_dense_hit e p) \<Longrightarrow> \<not> c_is_interpretive r"
  by (auto simp: aware_dense_hit_def dense_candidate_def split: option.splits)

lemma aware_dense_search_plain:
  assumes "aware_dense_search e query k = Inr cands" and "r \<in> set cands"
  shows "\<not> c_is_interpretive r"
proof (cases "embed e query")
  case (Inl ex)
  then show ?thesis using assms(1) by (simp add: aware_dense_search_def)
next
  case (Inr v)
  show ?thesis
  proof (cases "faiss_search e v k")
    case (Inl ex)
    then show ?thesis using assms(1) Inr by (simp add: aware_dense_search_def)
  next
    case pairs: (Inr pairs)
    have "cands = concat (map (aware_dense_hit e) pairs) \<or> cands = []"
      using assms(1) Inr pairs by (simp add: aware_dense_search_def split: if_splits)
    then show ?thesis using assms(2) aware_dense_hit_plain by auto
  qed
qed

lemma get_interpretation_links_linked:
  assumes "get_interpretation_links e ids = Inr m"
  shows "\<forall>entry \<in> set m. \<forall>ic \<in> set (snd entry).
           link_verified_for e (fst entry) (ic_case_id ic)"
proof (cases "ids = []")
  case True
  then show ?thesis using assms by (simp add: get_interpretation_links_def)
next
  case False
  then have m: "m = organize_by_statute (aware_select_rows e ids) []"
    using assms by (simp add: get_interpretation_links_def split: if_splits)
  show ?thesis
    unfolding m
    by (rule organize_by_statute_linked) (simp_all add: aware_select_rows_linked)
qed

lemma aware_retrieve_linked:
  assumes "aware_retrieve cfg e query k = Inr rs" and "r \<in> set rs" and "c_is_interpretive r"
  shows "\<exists>l \<in> set (interpretation_links e).
           verified l = Some True \<and> case_id l = c_id r \<and>
           c_interprets_statute r = Some (statute_id l)"
proof -
  let ?k = "case k of None \<Rightarrow> aware_top_k cfg | Some n \<Rightarrow> if n = 0 then aware_top_k cfg else n"
  obtain cands where
    c: "aware_dense_search e query (nat (?k * dense_k_multiplier cfg)) = Inr cands"
    using assms(1)
    by (cases "aware_dense_search e query (nat (?k * dense_k_multiplier cfg))")
       (simp_all add: aware_retrieve_def Let_def)
  have ne: "cands \<noteq> []"
    using assms(1,2) c by (auto simp: aware_retrieve_def Let_def)
  obtain m where m: "get_interpretation_links e (extract_statute_ids cands) = Inr m"
    using assms(1) c ne
    by (cases "get_interpretation_links e (extract_statute_ids cands)")
       (simp_all add: aware_retrieve_def Let_def)
  have rs: "rs = diversify_and_rerank cfg (aware_apply_interpretation_boost cfg cands m) ?k"
    using assms(1) c ne m by (simp add: aware_retrieve_def Let_def)
  have "r \<in> set (aware_apply_interpretation_boost cfg cands m)"
    using assms(2) aware_diversify_loop_subset[of r]
    unfolding rs diversify_and_rerank_def by fastforce
  moreover have "\<forall>x \<in> set (aware_apply_interpretation_boost cfg cands m).
                   c_is_interpretive x \<longrightarrow> aware_linked e x"
    unfolding aware_apply_interpretation_boost_def
    by (rule boost_statutes_linked)
       (use aware_dense_search_plain[OF c] get_interpretation_links_linked[OF m] in auto)
  ultimately have "aware_linked e r" using assms(3) by blast
  then show ?thesis unfolding aware_linked_def link_verified_for_def by auto
qed

subsection \<open>Both retrievers\<close>

text \<open>C3 (amended). The list that the hybrid \<open>retrieve\<close> returns contains at most
  \<open>max_interpretive_cases\<close> results annotated as interpreting any one statute when
  diversification is enabled and that maximum is not negative; the list that the
  interpretation-aware \<open>retrieve\<close> returns contains at most
  \<open>max_interpretive_per_statute\<close> candidates marked as interpreting any one statute when
  that maximum is not negative.\<close>

theorem retrieve_caps_interpretive_cases:
  "(diversification_enabled cfg \<and> 0 \<le> max_interpretive_cases cfg \<and>
    retrieve cfg e query k use_links = (ev, Inr rs) \<longrightarrow>
      int (length (interpreting s rs)) \<le> max_interpretive_cases cfg) \<and>
   (0 \<le> max_interpretive_per_statute acfg \<and> aware_retrieve acfg e query k = Inr cs \<longrightarrow>
      int (length (aware_interpreting s cs)) \<le> max_interpretive_per_statute acfg)"
  using hybrid_retrieve_caps_interpretive_cases aware_retrieve_cap by blast

theorem retrieve_caps_interpretive_cases_witness:
  "diversification_enabled default_config \<and> 0 \<le> max_interpretive_cases default_config \<and>
   map_option (map doc_id)
     (returned (retrieve default_config (demo_env five_hits four_links) ''q'' None True)) =
     Some [''c1'', ''s1'', ''c2'', ''c3''] \<and>
   int (length (interpreting ''s1''
     (the (returned (retrieve default_config (demo_env five_hits four_links) ''q'' None True)))))
     \<le> max_interpretive_cases default_config \<and>
   0 \<le> max_interpretive_per_statute default_aware_config \<and>
   map_option (map c_id)
     (aware_returned (aware_retrieve default_aware_config (dense_env four_links) ''q'' None)) =
     Some [''s1'', ''c1'', ''c2'', ''c3'', ''c4''] \<and>
   int (length (aware_interpreting ''s1''
     (the (aware_returned
        (aware_retrieve default_aware_config (dense_env four_links) ''q'' None)))))
     \<le> max_interpretive_per_statute default_aware_config"
proof -
  have d: "diversification_enabled default_config" "0 \<le> max_interpretive_cases default_config"
    by (simp_all add: default_config_def)
  have r: "map_option (map doc_id)
     (returned (retrieve default_config (demo_env five_hits four_links) ''q'' None True)) =
     Some [''c1'', ''s1'', ''c2'', ''c3'']"
    by code_simp
  then obtain ev rs where
    e: "retrieve default_config (demo_env five_hits four_links) ''q'' None True = (ev, Inr rs)"
    by (cases "retrieve default_config (demo_env five_hits four_links) ''q'' None True")
       (auto simp: returned_def split: sum.splits)
  have a: "0 \<le> max_interpretive_per_statute default_aware_config"
    by (simp add: default_aware_config_def)
  have ar: "map_option (map c_id)
     (aware_returned (aware_retrieve default_aware_config (dense_env four_links) ''q'' None)) =
     Some [''s1'', ''c1'', ''c2'', ''c3'', ''c4'']"
    by code_simp
  then obtain cs where
    ae: "aware_retrieve default_aware_config (dense_env four_links) ''q'' None = Inr cs"
    by (cases "aware_retrieve default_aware_config (dense_env four_links) ''q'' None")
       (auto simp: aware_returned_def)
  from retrieve_caps_interpretive_cases[of default_config "demo_env five_hits four_links"
      "''q''" None True ev rs "''s1''" default_aware_config]
    retrieve_caps_interpretive_cases[of default_config "dense_env four_links"
      "''q''" None True _ _ "''s1''" default_aware_config cs]
  show ?thesis using d r e a ar ae by (simp add: returned_def aware_returned_def)
qed

text \<open>C2 (amended). Every result that the hybrid \<open>retrieve\<close> returns boosted or injected
  (every result annotated with \<^verbatim>\<open>interprets_statute\<close>) corresponds to a stored link
  from that statute to that case whose \<^verbatim>\<open>verified\<close> column is true or NULL; a link
  stored with \<^verbatim>\<open>verified = false\<close> is never used. Every candidate that the
  interpretation-aware \<open>retrieve\<close> returns boosted or injected corresponds to a stored
  link with \<^verbatim>\<open>verified = true\<close>.\<close>

theorem boosted_results_correspond_to_selected_links:
  "(retrieve cfg e query k use_links = (ev, Inr rs) \<and> r \<in> set rs \<and>
    interprets_statute r = Some s \<longrightarrow>
      (\<exists>l \<in> set (interpretation_links e).
         case_id l = doc_id r \<and> statute_id l = s \<and>
         (verified l = Some True \<or> verified l = None))) \<and>
   (aware_retrieve acfg e query k = Inr cs \<and> c \<in> set cs \<and> c_is_interpretive c \<longrightarrow>
      (\<exists>l \<in> set (interpretation_links e).
         verified l = Some True \<and> case_id l = c_id c \<and>
         c_interprets_statute c = Some (statute_id l)))"
  using hybrid_boost_uses_selected_links aware_retrieve_linked by blast

theorem boosted_results_correspond_to_selected_links_witness:
  "map_option (map interprets_statute)
     (returned (retrieve default_config (demo_env three_hits unverified_links) ''q'' None True)) =
     Some [None, Some ''s1'', None] \<and>
   (\<exists>l \<in> set (interpretation_links (demo_env three_hits unverified_links)).
      case_id l = ''c1'' \<and> statute_id l = ''s1'' \<and>
      (verified l = Some True \<or> verified l = None)) \<and>
   map_option (map c_is_interpretive)
     (aware_returned (aware_retrieve default_aware_config (dense_env four_links) ''q'' None)) =
     Some [False, True, True, True, False] \<and>
   (\<exists>l \<in> set (interpretation_links (dense_env four_links)).
      verified l = Some True \<and> case_id l = ''c1'' \<and> statute_id l = ''s1'')"
proof -
  let ?out = "retrieve default_config (demo_env three_hits unverified_links) ''q'' None True"
  have a: "map_option (map interprets_statute) (returned ?out) = Some [None, Some ''s1'', None]"
    by code_simp
  have b: "map_option (map doc_id) (returned ?out) = Some [''s1'', ''c1'', ''c3'']"
    by code_simp
  obtain ev rs where e: "?out = (ev, Inr rs)"
    using a by (cases ?out) (auto simp: returned_def split: sum.splits)
  have rs: "map interprets_statute rs = [None, Some ''s1'', None]"
      "map doc_id rs = [''s1'', ''c1'', ''c3'']"
    using a b e by (simp_all add: returned_def)
  then obtain r0 r1 r2 where l: "rs = [r0, r1, r2]"
    by (auto simp: map_eq_Cons_conv)
  have r1: "r1 \<in> set rs" "interprets_statute r1 = Some ''s1''" "doc_id r1 = ''c1''"
    using rs l by simp_all
  let ?aout = "aware_retrieve default_aware_config (dense_env four_links) ''q'' None"
  have c: "map_option (map c_is_interpretive) (aware_returned ?aout) =
           Some [False, True, True, True, False]"
    by code_simp
  have d: "map_option (map c_id) (aware_returned ?aout) =
           Some [''s1'', ''c1'', ''c2'', ''c3'', ''c4'']"
    by code_simp
  have d': "map_option (map c_interprets_statute) (aware_returned ?aout) =
           Some [None, Some ''s1'', Some ''s1'', Some ''s1'', None]"
    by code_simp
  obtain cs where ae: "?aout = Inr cs"
    using c by (cases ?aout) (auto simp: aware_returned_def)
  have cs: "map c_is_interpretive cs = [False, True, True, True, False]"
      "map c_id cs = [''s1'', ''c1'', ''c2'', ''c3'', ''c4'']"
      "map c_interprets_statute cs = [None, Some ''s1'', Some ''s1'', Some ''s1'', None]"
    using c d d' ae by (simp_all add: aware_returned_def)
  then obtain c0 c1 c2 c3 c4 where cl: "cs = [c0, c1, c2, c3, c4]"
    by (auto simp: map_eq_Cons_conv)
  have c1: "c1 \<in> set cs" "c_is_interpretive c1" "c_id c1 = ''c1''"
      "c_interprets_statute c1 = Some ''s1''"
    using cs cl by simp_all
  from boosted_results_correspond_to_selected_links[of default_config
      "demo_env three_hits unverified_links" "''q''" None True ev rs r1 "''s1''"]
  have h: "\<exists>l \<in> set (interpretation_links (demo_env three_hits unverified_links)).
      case_id l = ''c1'' \<and> statute_id l = ''s1'' \<and>
      (verified l = Some True \<or> verified l = None)"
    using e r1 by simp
  have i0: "\<exists>l \<in> set (interpretation_links (dense_env four_links)).
      verified l = Some True \<and> case_id l = c_id c1 \<and>
      c_interprets_statute c1 = Some (statute_id l)"
    using boosted_results_correspond_to_selected_links[where e = "dense_env four_links"
        and acfg = default_aware_config and query = "''q''" and k = None and cs = cs
        and c = c1] ae c1(1,2)
    by blast
  have i: "\<exists>l \<in> set (interpretation_links (dense_env four_links)).
      verified l = Some True \<and> case_id l = ''c1'' \<and> statute_id l = ''s1''"
    using i0 c1(3,4) by auto
  show ?thesis using a c h i by blast
qed

end
